theory Spec2Isabelle
  imports Main "HOL-Library.Sublist"
begin

section \<open>Python strings\<close>

text \<open>
  A Python \<open>str\<close> is a sequence of Unicode code points; it is modelled as the list of
  its code points.  \<open>lit\<close> turns an ASCII literal of the source into such a list.
\<close>

type_synonym str = "nat list"

definition lit :: "string \<Rightarrow> str" where
  "lit cs = map of_char cs"

definition nl :: str where
  "nl = [10]"

definition triple_double :: str where
  "triple_double = [34, 34, 34]"

definition triple_single :: str where
  "triple_single = [39, 39, 39]"

text \<open>\<open>s.startswith(p)\<close>\<close>

definition startswith :: "str \<Rightarrow> str \<Rightarrow> bool" where
  "startswith s p = (take (length p) s = p)"

text \<open>\<open>sub in s\<close> for two strings: \<open>sub\<close> occurs in \<open>s\<close> as a contiguous block.\<close>

fun str_contains :: "str \<Rightarrow> str \<Rightarrow> bool" where
  "str_contains [] sub = (sub = [])"
| "str_contains (c # cs) sub = (startswith (c # cs) sub \<or> str_contains cs sub)"

text \<open>
  The code points that \<open>str.strip()\<close> removes (those for which \<open>str.isspace\<close> holds).
\<close>

definition is_space :: "nat \<Rightarrow> bool" where
  "is_space c =
     ((9 \<le> c \<and> c \<le> 13) \<or> (28 \<le> c \<and> c \<le> 32) \<or> c = 133 \<or> c = 160 \<or> c = 5760 \<or>
      (8192 \<le> c \<and> c \<le> 8202) \<or> c = 8232 \<or> c = 8233 \<or> c = 8239 \<or> c = 8287 \<or>
      c = 12288)"

definition strip :: "str \<Rightarrow> str" where
  "strip s = rev (dropWhile is_space (rev (dropWhile is_space s)))"

text \<open>\<open>str(n)\<close> for a non-negative integer: its decimal digits.\<close>

fun digits :: "nat \<Rightarrow> nat \<Rightarrow> str" where
  "digits 0 n = []"
| "digits (Suc k) n = (if n < 10 then [48 + n] else digits k (n div 10) @ [48 + n mod 10])"

definition str_nat :: "nat \<Rightarrow> str" where
  "str_nat n = digits (Suc n) n"

section \<open>Paths and the file system\<close>

text \<open>
  A \<open>pathlib.Path\<close> is modelled as the list of its components below the file-system root
  (so \<open>[]\<close> is the root directory).  Parsing a string splits it at \<open>/\<close> and drops empty
  and \<open>.\<close> components, as \<open>pathlib\<close> does; \<open>..\<close> components and symbolic links are not
  resolved by the model.
\<close>

type_synonym path = "str list"

fun split_slash :: "str \<Rightarrow> str \<Rightarrow> str list" where
  "split_slash acc [] = [acc]"
| "split_slash acc (c # cs) =
     (if c = 47 then acc # split_slash [] cs else split_slash (acc @ [c]) cs)"

definition split_path :: "str \<Rightarrow> path" where
  "split_path s = filter (\<lambda>c. c \<noteq> [] \<and> c \<noteq> [46]) (split_slash [] s)"

text \<open>\<open>base / rel\<close>: an absolute right operand replaces the left one.\<close>

definition joinpath :: "path \<Rightarrow> str \<Rightarrow> path" where
  "joinpath base rel = (if startswith rel [47] then split_path rel else base @ split_path rel)"

text \<open>\<open>p.parent\<close> and \<open>p.name\<close>\<close>

definition parent :: "path \<Rightarrow> path" where
  "parent p = butlast p"

definition name :: "path \<Rightarrow> str" where
  "name p = (if p = [] then [] else last p)"

text \<open>\<open>str(p)\<close>\<close>

definition str_path :: "path \<Rightarrow> str" where
  "str_path p = (if p = [] then [47] else concat (map (\<lambda>c. 47 # c) p))"

text \<open>
  What a regular file stores is its bytes.  They are modelled as the sequence of what the
  locale's encoding makes of them: the characters that are validly encoded in the file, and
  the bytes that are part of no valid encoding.  Copying a file copies this sequence as it
  is; reading a file as text needs every item of it to be a character.
\<close>

datatype stored = Decoded nat | Undecodable nat

type_synonym data = "stored list"

text \<open>
  The file system maps a path to what is stored there: a regular file with its data, or a
  directory.  The root always is a directory.  Metadata (modification times, permissions)
  is not modelled.
\<close>

datatype node = File data | Dir

type_synonym fs = "path \<Rightarrow> node option"

definition lookup :: "fs \<Rightarrow> path \<Rightarrow> node option" where
  "lookup fs p = (if p = [] then Some Dir else fs p)"

text \<open>\<open>p.exists()\<close>, \<open>p.is_dir()\<close>, \<open>p.is_file()\<close>\<close>

definition exists :: "fs \<Rightarrow> path \<Rightarrow> bool" where
  "exists fs p = (lookup fs p \<noteq> None)"

definition is_dir :: "fs \<Rightarrow> path \<Rightarrow> bool" where
  "is_dir fs p = (lookup fs p = Some Dir)"

definition is_file :: "fs \<Rightarrow> path \<Rightarrow> bool" where
  "is_file fs p = (case lookup fs p of Some (File c) \<Rightarrow> True | _ \<Rightarrow> False)"

text \<open>The exceptions of the Python runtime that the two scripts can meet.\<close>

datatype py_exn =
    FileNotFoundError path
  | FileExistsError path
  | NotADirectoryError path
  | IsADirectoryError path
  | SameFileError path path
  | UnicodeDecodeError nat
  | TypeError str
  | UnboundLocalError str
  | YAMLError str
  | OtherError str
  | SystemExit int
  | KeyboardInterrupt

text \<open>
  Whether an exception is an instance of \<open>Exception\<close>, which \<open>except Exception\<close> catches.
  \<open>SystemExit\<close> and \<open>KeyboardInterrupt\<close> derive from \<open>BaseException\<close> only and pass such
  a handler.
\<close>

fun is_exception :: "py_exn \<Rightarrow> bool" where
  "is_exception (SystemExit code) = False"
| "is_exception KeyboardInterrupt = False"
| "is_exception e = True"

text \<open>
  Whether the nearest existing ancestor of a path is a regular file; the path is given
  reversed (last component first).  The operating system then answers \<open>ENOTDIR\<close> instead
  of \<open>ENOENT\<close>.
\<close>

fun under_file_rev :: "fs \<Rightarrow> str list \<Rightarrow> bool" where
  "under_file_rev fs [] = False"
| "under_file_rev fs (c # rp) =
     (case lookup fs (rev rp) of
        Some (File t) \<Rightarrow> True
      | Some Dir \<Rightarrow> False
      | None \<Rightarrow> under_file_rev fs rp)"

definition absent_exn :: "fs \<Rightarrow> path \<Rightarrow> py_exn" where
  "absent_exn fs p =
     (if under_file_rev fs (rev p) then NotADirectoryError p else FileNotFoundError p)"

text \<open>
  \<open>p.mkdir(parents=True, exist_ok=True)\<close>, on the reversed path: an existing directory
  is left alone, an existing regular file raises, a missing directory is created after
  its missing ancestors.
\<close>

fun mkdir_rev :: "fs \<Rightarrow> str list \<Rightarrow> py_exn + fs" where
  "mkdir_rev fs [] = Inr fs"
| "mkdir_rev fs (c # rp) =
     (case lookup fs (rev (c # rp)) of
        Some Dir \<Rightarrow> Inr fs
      | Some (File t) \<Rightarrow> Inl (FileExistsError (rev (c # rp)))
      | None \<Rightarrow>
          if under_file_rev fs (c # rp) then Inl (NotADirectoryError (rev (c # rp)))
          else (case mkdir_rev fs rp of
                  Inl e \<Rightarrow> Inl e
                | Inr fs' \<Rightarrow> Inr (fs'(rev (c # rp) \<mapsto> Dir))))"

definition mkdir_parents :: "fs \<Rightarrow> path \<Rightarrow> py_exn + fs" where
  "mkdir_parents fs p = mkdir_rev fs (rev p)"

text \<open>
  Encoding a text for writing, and decoding data read as text: decoding raises
  \<open>UnicodeDecodeError\<close> at the first byte that is no part of a character.
\<close>

definition encode :: "str \<Rightarrow> data" where
  "encode t = map Decoded t"

fun decode :: "data \<Rightarrow> py_exn + str" where
  "decode [] = Inr []"
| "decode (Undecodable b # ds) = Inl (UnicodeDecodeError b)"
| "decode (Decoded c # ds) = (case decode ds of Inl e \<Rightarrow> Inl e | Inr t \<Rightarrow> Inr (c # t))"

text \<open>
  A file opened in text mode for reading translates line ends: a carriage return (13)
  followed by a line feed (10), and a carriage return alone, both are read as one line
  feed.
\<close>

fun universal_newlines :: "str \<Rightarrow> str" where
  "universal_newlines [] = []"
| "universal_newlines [c] = (if c = 13 then [10] else [c])"
| "universal_newlines (c # d # cs) =
     (if c = 13 \<and> d = 10 then 10 # universal_newlines cs
      else if c = 13 then 10 # universal_newlines (d # cs)
      else c # universal_newlines (d # cs))"

text \<open>Reading and writing a file in binary mode: \<open>open(p, 'rb')\<close>, \<open>open(p, 'wb')\<close>\<close>

definition read_bytes :: "fs \<Rightarrow> path \<Rightarrow> py_exn + data" where
  "read_bytes fs p =
     (case lookup fs p of
        Some (File d) \<Rightarrow> Inr d
      | Some Dir \<Rightarrow> Inl (IsADirectoryError p)
      | None \<Rightarrow> Inl (absent_exn fs p))"

definition write_bytes :: "fs \<Rightarrow> path \<Rightarrow> data \<Rightarrow> py_exn + fs" where
  "write_bytes fs p d =
     (case lookup fs p of
        Some Dir \<Rightarrow> Inl (IsADirectoryError p)
      | Some (File old) \<Rightarrow> Inr (fs(p \<mapsto> File d))
      | None \<Rightarrow>
          (case lookup fs (parent p) of
             Some Dir \<Rightarrow> Inr (fs(p \<mapsto> File d))
           | _ \<Rightarrow> Inl (absent_exn fs p)))"

text \<open>
  \<open>open(p, 'r').read()\<close> and \<open>p.read_text()\<close>: the data is decoded and the line ends
  are translated.
\<close>

definition read_text :: "fs \<Rightarrow> path \<Rightarrow> py_exn + str" where
  "read_text fs p =
     (case read_bytes fs p of
        Inl e \<Rightarrow> Inl e
      | Inr d \<Rightarrow> (case decode d of Inl e \<Rightarrow> Inl e | Inr t \<Rightarrow> Inr (universal_newlines t)))"

text \<open>
  Opening for writing and writing the whole text: \<open>open(p, 'w')\<close>, \<open>p.write_text(t)\<close>.
  A line feed of the text is written as it is, as on POSIX systems, and the text is taken
  to be encodable.
\<close>

definition write_text :: "fs \<Rightarrow> path \<Rightarrow> str \<Rightarrow> py_exn + fs" where
  "write_text fs p t = write_bytes fs p (encode t)"

text \<open>Opening for appending and writing a text at the end: \<open>open(p, 'a')\<close>\<close>

definition append_text :: "fs \<Rightarrow> path \<Rightarrow> str \<Rightarrow> py_exn + fs" where
  "append_text fs p t =
     (case lookup fs p of
        Some Dir \<Rightarrow> Inl (IsADirectoryError p)
      | Some (File old) \<Rightarrow> Inr (fs(p \<mapsto> File (old @ encode t)))
      | None \<Rightarrow>
          (case lookup fs (parent p) of
             Some Dir \<Rightarrow> Inr (fs(p \<mapsto> File (encode t)))
           | _ \<Rightarrow> Inl (absent_exn fs p)))"

text \<open>
  \<open>shutil.copy2(src, dst)\<close>: a destination that is a directory stands for the file of the
  source's name inside it; copying a file onto itself raises; then the source is read and
  the destination written, both in binary mode.
\<close>

definition copy2 :: "fs \<Rightarrow> path \<Rightarrow> path \<Rightarrow> py_exn + fs" where
  "copy2 fs src dst =
     (let dst' = (if is_dir fs dst then dst @ [name src] else dst) in
      if src = dst' \<and> exists fs src then Inl (SameFileError src dst')
      else (case read_bytes fs src of
              Inl e \<Rightarrow> Inl e
            | Inr d \<Rightarrow> write_bytes fs dst' d))"

section \<open>The migration script\<close>

text \<open>
  The script changes the file system and prints to standard output; both are threaded
  through its functions.  One \<open>print\<close> call appends one entry to \<open>stdout\<close>.  An exception
  that nothing catches ends the run: it is the \<open>Inl\<close> result.
\<close>

record world =
  files :: fs
  stdout :: "str list"

definition print :: "str \<Rightarrow> world \<Rightarrow> world" where
  "print s w = w\<lparr>stdout := stdout w @ [s]\<rparr>"

definition FILE_MAPPING :: "(str \<times> str \<times> bool) list" where
  "FILE_MAPPING =
     [(lit ''N5ForShare/MOCU.py'', lit ''src/core/mocu_cuda.py'', True),
      (lit ''N5ForShare/determineSyncN.py'', lit ''src/core/sync_detection.py'', True),
      (lit ''N5ForShare/determineSyncTwo.py'', lit ''src/core/sync_detection.py'', False),
      (lit ''N5ForShare/mocu_comp.py'', lit ''src/core/sync_detection.py'', False),
      (lit ''models/MP_train.py'', lit ''src/models/trainer.py'', True),
      (lit ''N5ForShare/findMPSequence.py'', lit ''src/strategies/mp_strategy.py'', True),
      (lit ''N5ForShare/findMOCUSequence.py'', lit ''src/strategies/mocu_strategy.py'', True),
      (lit ''N5ForShare/findEntropySequence.py'', lit ''src/strategies/entropy_strategy.py'', True),
      (lit ''N5ForShare/findRandomSequence.py'', lit ''src/strategies/random_strategy.py'', True),
      (lit ''models/utils.py'', lit ''src/utils/visualization.py'', True),
      (lit ''N5ForShare/drawResults.py'', lit ''scripts/4_visualize_results.py'', True),
      (lit ''N5ForShare/runMainForPerformanceMeasure.py'', lit ''scripts/3_run_experiment.py'', True)]"

subsection \<open>\<open>ensure_directories\<close>\<close>

definition dirs :: "str list" where
  "dirs =
     [lit ''src/core'', lit ''src/models'', lit ''src/strategies'', lit ''src/utils'',
      lit ''scripts'', lit ''tests'', lit ''logs'', lit ''configs'', lit ''Dataset'',
      lit ''Experiment'', lit ''results'']"

definition init_text :: str where
  "init_text = triple_double @ lit ''Package initialization.'' @ triple_double @ nl"

text \<open>The body of the loop, for one entry \<open>d\<close> of \<open>dirs\<close>.\<close>

definition ensure_directory :: "path \<Rightarrow> str \<Rightarrow> fs \<Rightarrow> py_exn + fs" where
  "ensure_directory base_path d fs =
     (case mkdir_parents fs (joinpath base_path d) of
        Inl e \<Rightarrow> Inl e
      | Inr fs1 \<Rightarrow>
          if startswith d (lit ''src/'') then
            (let init_file = joinpath (joinpath base_path d) (lit ''__init__.py'') in
             if \<not> exists fs1 init_file then write_text fs1 init_file init_text
             else Inr fs1)
          else Inr fs1)"

fun ensure_loop :: "path \<Rightarrow> str list \<Rightarrow> fs \<Rightarrow> py_exn + fs" where
  "ensure_loop base_path [] fs = Inr fs"
| "ensure_loop base_path (d # ds) fs =
     (case ensure_directory base_path d fs of
        Inl e \<Rightarrow> Inl e
      | Inr fs1 \<Rightarrow> ensure_loop base_path ds fs1)"

definition ensure_directories :: "path \<Rightarrow> fs \<Rightarrow> py_exn + fs" where
  "ensure_directories base_path fs = ensure_loop base_path dirs fs"

subsection \<open>\<open>copy_file\<close>\<close>

definition rule60 :: str where
  "rule60 = lit ''# '' @ replicate 60 61"

text \<open>The three texts written before the appended content.\<close>

definition separator :: "path \<Rightarrow> str" where
  "separator src =
     (nl @ nl @ rule60 @ nl) @
     (lit ''# Appended from '' @ name src @ nl) @
     (rule60 @ nl @ nl)"

definition copy_file :: "path \<Rightarrow> path \<Rightarrow> bool \<Rightarrow> world \<Rightarrow> py_exn + (bool \<times> world)" where
  "copy_file src dst append_flag w =
     (if \<not> exists (files w) src then
        Inr (False, print (lit ''  WARNING: Source file not found: '' @ str_path src) w)
      else
        (case mkdir_parents (files w) (parent dst) of
           Inl e \<Rightarrow> Inl e
         | Inr fs1 \<Rightarrow>
             (case (if append_flag \<and> exists fs1 dst then
                      (case read_text fs1 src of
                         Inl e \<Rightarrow> Inl e
                       | Inr content \<Rightarrow> append_text fs1 dst (separator src @ content))
                    else copy2 fs1 src dst) of
                Inl e \<Rightarrow> Inl e
              | Inr fs2 \<Rightarrow>
                  Inr (True,
                       print (lit ''  '' @ [10003] @ lit '' Copied: '' @ str_path src @
                              lit '' -> '' @ str_path dst)
                         (w\<lparr>files := fs2\<rparr>)))))"

subsection \<open>\<open>add_file_header\<close>\<close>

definition header :: "str \<Rightarrow> str" where
  "header description =
     triple_double @ nl @
     description @ nl @
     nl @
     lit ''This module is part of the MOCU-OED project for optimal experimental design'' @ nl @
     lit ''in coupled oscillator systems.'' @ nl @
     triple_double @ nl @
     nl"

definition add_file_header :: "path \<Rightarrow> str \<Rightarrow> fs \<Rightarrow> py_exn + fs" where
  "add_file_header file_path description fs =
     (case read_text fs file_path of
        Inl e \<Rightarrow> Inl e
      | Inr content \<Rightarrow>
          if \<not> startswith (strip content) triple_double \<and>
             \<not> startswith (strip content) triple_single
          then write_text fs file_path (header description @ content)
          else Inr fs)"

subsection \<open>\<open>create_migration_report\<close>\<close>

definition unlines :: "str list \<Rightarrow> str" where
  "unlines ls = concat (map (\<lambda>l. l @ nl) ls)"

definition report_head :: "nat \<Rightarrow> nat \<Rightarrow> str" where
  "report_head success fail = unlines
     [lit ''# Migration Report'',
      [],
      lit ''Generated: migrate_project.py'',
      [],
      lit ''## Summary'',
      [],
      lit ''- **Files copied successfully**: '' @ str_nat success,
      lit ''- **Files failed**: '' @ str_nat fail,
      lit ''- **Status**: '' @
        (if fail = 0 then [10003] @ lit '' Complete'' else [9888] @ lit '' Incomplete''),
      [],
      lit ''## File Mapping'',
      [],
      lit ''The following files were migrated:'',
      [],
      lit ''| Old Location | New Location | Status |'',
      lit ''|-------------|-------------|--------|'']"

definition report_row :: "path \<Rightarrow> fs \<Rightarrow> str \<times> str \<times> bool \<Rightarrow> str" where
  "report_row base_path fs entry =
     (case entry of (src, dst, needs_improvement) \<Rightarrow>
        lit ''| `'' @ src @ lit ''` | `'' @ dst @ lit ''` | '' @
        (if exists fs (joinpath base_path dst) then [10003] else [10007]) @ lit '' |'' @ nl)"

definition report_tail :: str where
  "report_tail = unlines
     [[],
      [],
      lit ''## Manual Steps Required'',
      [],
      lit ''### 1. Update Import Statements'',
      [],
      lit ''Old imports like:'',
      lit ''```python'',
      lit ''from MOCU import *'',
      lit ''from determineSyncN import *'',
      lit ''```'',
      [],
      lit ''Should become:'',
      lit ''```python'',
      lit ''from src.core.mocu_cuda import MOCU'',
      lit ''from src.core.sync_detection import determineSyncN'',
      lit ''```'',
      [],
      lit ''### 2. Update Configuration'',
      [],
      lit ''- Update `N_global` in CUDA kernel if needed'',
      lit ''- Configure model paths in `configs/default_config.yaml`'',
      [],
      lit ''### 3. Test Migration'',
      [],
      lit ''Run the test suite:'',
      lit ''```bash'',
      lit ''pytest tests/ -v'',
      lit ''```'',
      [],
      lit ''### 4. Update Documentation'',
      [],
      lit ''- Review and update docstrings'',
      lit ''- Update README examples'',
      lit ''- Check that all functions have type hints'',
      [],
      lit ''## Known Issues'',
      [],
      lit ''1. **Hard-coded paths**: Some files contain hard-coded paths that need updating'',
      lit ''2. **N_global parameter**: CUDA kernel requires manual update for different N'',
      lit ''3. **Model loading**: Update model paths in strategy files'',
      [],
      lit ''## Validation Checklist'',
      [],
      lit ''- [ ] All files copied successfully'',
      lit ''- [ ] Import statements updated'',
      lit ''- [ ] Tests pass'',
      lit ''- [ ] Documentation reviewed'',
      lit ''- [ ] Configuration files created'',
      lit ''- [ ] Example scripts work'',
      [],
      lit ''## Contact'',
      [],
      lit ''If you encounter issues, please check:'',
      lit ''- REORGANIZATION_GUIDE.md'',
      lit ''- README.md'',
      lit ''- GitHub issues'']"

definition create_migration_report :: "path \<Rightarrow> nat \<Rightarrow> nat \<Rightarrow> fs \<Rightarrow> py_exn + fs" where
  "create_migration_report base_path success fail fs =
     write_text fs (joinpath base_path (lit ''MIGRATION_REPORT.md''))
       (report_head success fail @
        concat (map (report_row base_path fs) FILE_MAPPING) @
        report_tail)"

subsection \<open>\<open>migrate_files\<close>\<close>

text \<open>The copy loop over the plan, with its two counters.\<close>

fun copy_files ::
  "path \<Rightarrow> path \<Rightarrow> (str \<times> str \<times> bool) list \<Rightarrow> nat \<times> nat \<times> world \<Rightarrow>
   py_exn + (nat \<times> nat \<times> world)" where
  "copy_files old_base new_base [] acc = Inr acc"
| "copy_files old_base new_base ((src_rel, dst_rel, needs_improvement) # rest)
     (success_count, fail_count, w) =
     (let src = joinpath old_base src_rel;
          dst = joinpath new_base dst_rel;
          append_flag = str_contains dst_rel (lit ''Append'')
      in case copy_file src dst append_flag w of
           Inl e \<Rightarrow> Inl e
         | Inr (ok, w') \<Rightarrow>
             if ok then copy_files old_base new_base rest (success_count + 1, fail_count, w')
             else copy_files old_base new_base rest (success_count, fail_count + 1, w'))"

text \<open>The three local values of the loop body, for one entry of the plan.\<close>

definition entry_src :: "path \<Rightarrow> str \<times> str \<times> bool \<Rightarrow> path" where
  "entry_src old_base entry = joinpath old_base (fst entry)"

definition entry_dst :: "path \<Rightarrow> str \<times> str \<times> bool \<Rightarrow> path" where
  "entry_dst new_base entry = joinpath new_base (fst (snd entry))"

definition entry_append :: "str \<times> str \<times> bool \<Rightarrow> bool" where
  "entry_append entry = str_contains (fst (snd entry)) (lit ''Append'')"

definition file_descriptions :: "(str \<times> str) list" where
  "file_descriptions =
     [(lit ''src/core/mocu_cuda.py'', lit ''CUDA-accelerated MOCU computation''),
      (lit ''src/core/sync_detection.py'', lit ''Synchronization detection for oscillator systems''),
      (lit ''src/models/trainer.py'', lit ''Neural network training utilities''),
      (lit ''src/strategies/mp_strategy.py'', lit ''Message passing-based OED strategy''),
      (lit ''src/strategies/mocu_strategy.py'', lit ''ODE-based MOCU strategy''),
      (lit ''src/strategies/entropy_strategy.py'', lit ''Entropy-based OED strategy''),
      (lit ''src/strategies/random_strategy.py'', lit ''Random baseline strategy'')]"

text \<open>The body of the header loop: the header is added only to a path that exists.\<close>

definition add_header_if_exists :: "path \<Rightarrow> str \<times> str \<Rightarrow> world \<Rightarrow> py_exn + world" where
  "add_header_if_exists new_base entry w =
     (case entry of (file_rel, description) \<Rightarrow>
        (let file_path = joinpath new_base file_rel in
         if exists (files w) file_path then
           (case add_file_header file_path description (files w) of
              Inl e \<Rightarrow> Inl e
            | Inr fs1 \<Rightarrow>
                Inr (print (lit ''  '' @ [10003] @ lit '' Added header: '' @ file_rel)
                       (w\<lparr>files := fs1\<rparr>)))
         else Inr w))"

fun add_headers :: "path \<Rightarrow> (str \<times> str) list \<Rightarrow> world \<Rightarrow> py_exn + world" where
  "add_headers new_base [] w = Inr w"
| "add_headers new_base (entry # rest) w =
     (case add_header_if_exists new_base entry w of
        Inl e \<Rightarrow> Inl e
      | Inr w1 \<Rightarrow> add_headers new_base rest w1)"

definition migrate_files :: "path \<Rightarrow> path \<Rightarrow> world \<Rightarrow> py_exn + world" where
  "migrate_files old_base new_base w0 =
     (let w1 = print (replicate 70 61) w0;
          w2 = print (lit ''MOCU-OED Project Migration'') w1;
          w3 = print (replicate 70 61) w2;
          w4 = print (nl @ lit ''1. Creating directory structure...'') w3
      in case ensure_directories new_base (files w4) of
           Inl e \<Rightarrow> Inl e
         | Inr fs5 \<Rightarrow>
      (let w5 = print (lit ''  '' @ [10003] @ lit '' Directory structure created'')
                  (w4\<lparr>files := fs5\<rparr>);
           w6 = print (nl @ lit ''2. Copying files...'') w5
       in case copy_files old_base new_base FILE_MAPPING (0, 0, w6) of
            Inl e \<Rightarrow> Inl e
          | Inr (success_count, fail_count, w7) \<Rightarrow>
      (let w8 = print (nl @ lit ''  Summary: '' @ str_nat success_count @
                       lit '' succeeded, '' @ str_nat fail_count @ lit '' failed'') w7;
           w9 = print (nl @ lit ''3. Adding professional headers...'') w8
       in case add_headers new_base file_descriptions w9 of
            Inl e \<Rightarrow> Inl e
          | Inr w10 \<Rightarrow>
      (let w11 = print (nl @ lit ''4. Creating migration report...'') w10
       in case create_migration_report new_base success_count fail_count (files w11) of
            Inl e \<Rightarrow> Inl e
          | Inr fs12 \<Rightarrow>
      (let w12 = print (lit ''  '' @ [10003] @ lit '' Report created: MIGRATION_REPORT.md'')
                   (w11\<lparr>files := fs12\<rparr>);
           w13 = print (nl @ replicate 70 61) w12;
           w14 = print (lit ''Migration complete!'') w13;
           w15 = print (replicate 70 61) w14;
           w16 = print (nl @ lit ''Next steps:'') w15;
           w17 = print (lit ''1. Review MIGRATION_REPORT.md'') w16;
           w18 = print (lit ''2. Run validation: python scripts/validate_migration.py'') w17;
           w19 = print (lit ''3. Run tests: pytest tests/'') w18;
           w20 = print (lit ''4. Update import statements as needed'') w19
       in Inr w20)))))"

section \<open>The validation script\<close>

text \<open>
  What the script takes from outside its own source: the module lookup of \<open>importlib\<close>
  (\<open>find_spec\<close> returns a spec or \<open>None\<close>, or raises; it imports the parent packages of
  the module, so what it raises can be any exception, \<open>SystemExit\<close> included), whether
  \<open>import yaml\<close> succeeds, the YAML parser, and the text \<open>str(e)\<close> of an exception.
\<close>

text \<open>
  The values \<open>yaml.safe_load\<close> returns: \<open>None\<close>, booleans, integers, floats, strings,
  lists and dictionaries.
\<close>

datatype yaml =
    YNull
  | YBool bool
  | YInt int
  | YFloat int int
  | YStr str
  | YSeq "yaml list"
  | YMap "(yaml \<times> yaml) list"

record env =
  find_spec :: "str \<Rightarrow> py_exn + bool"
  yaml_installed :: bool
  safe_load :: "str \<Rightarrow> py_exn + yaml"
  exn_str :: "py_exn \<Rightarrow> str"

text \<open>
  \<open>section in config\<close>, for a string \<open>section\<close>: key membership in a dictionary, element
  membership in a list, substring test in a string; any other value raises \<open>TypeError\<close>
  (argument of that type is not iterable).
\<close>

fun py_in :: "str \<Rightarrow> yaml \<Rightarrow> py_exn + bool" where
  "py_in s (YMap kvs) = Inr (YStr s \<in> set (map fst kvs))"
| "py_in s (YSeq xs) = Inr (YStr s \<in> set xs)"
| "py_in s (YStr t) = Inr (str_contains t s)"
| "py_in s YNull = Inl (TypeError (lit ''NoneType''))"
| "py_in s (YBool b) = Inl (TypeError (lit ''bool''))"
| "py_in s (YInt i) = Inl (TypeError (lit ''int''))"
| "py_in s (YFloat m e) = Inl (TypeError (lit ''float''))"

text \<open>
  The validator object.  The \<open>print\<close> calls of this script only write to standard output;
  they neither read nor change the three buckets and are left out.
\<close>

record validator =
  project_root :: path
  errors :: "str list"
  warnings :: "str list"
  passed :: "str list"

definition ProjectValidator :: "path \<Rightarrow> validator" where
  "ProjectValidator root = \<lparr>project_root = root, errors = [], warnings = [], passed = []\<rparr>"

text \<open>
  A check returns the validator as it leaves it and the exception it raised, if any.
\<close>

type_synonym 'a check = "'a validator_scheme \<Rightarrow> 'a validator_scheme \<times> py_exn option"

subsection \<open>\<open>check_directory_structure\<close>\<close>

definition required_dirs :: "str list" where
  "required_dirs =
     [lit ''src'', lit ''src/core'', lit ''src/models'', lit ''src/strategies'',
      lit ''src/utils'', lit ''scripts'', lit ''configs'', lit ''tests'']"

fun check_directory_loop :: "fs \<Rightarrow> str list \<Rightarrow> 'a validator_scheme \<Rightarrow> 'a validator_scheme" where
  "check_directory_loop fs [] self = self"
| "check_directory_loop fs (dir_path # rest) self =
     (let full_path = joinpath (project_root self) dir_path in
      if exists fs full_path \<and> is_dir fs full_path
      then check_directory_loop fs rest
             (self\<lparr>passed := passed self @ [lit ''Directory exists: '' @ dir_path]\<rparr>)
      else check_directory_loop fs rest
             (self\<lparr>errors := errors self @ [lit ''Missing directory: '' @ dir_path]\<rparr>))"

definition check_directory_structure :: "fs \<Rightarrow> 'a check" where
  "check_directory_structure fs self = (check_directory_loop fs required_dirs self, None)"

subsection \<open>\<open>check_required_files\<close>\<close>

definition required_files :: "str list" where
  "required_files =
     [lit ''README.md'', lit ''requirements.txt'', lit ''setup.py'',
      lit ''configs/default_config.yaml'', lit ''src/__init__.py'',
      lit ''src/core/__init__.py'', lit ''src/models/__init__.py'',
      lit ''src/strategies/__init__.py'', lit ''src/utils/__init__.py'']"

fun check_files_loop :: "fs \<Rightarrow> str list \<Rightarrow> 'a validator_scheme \<Rightarrow> 'a validator_scheme" where
  "check_files_loop fs [] self = self"
| "check_files_loop fs (file_path # rest) self =
     (let full_path = joinpath (project_root self) file_path in
      if exists fs full_path \<and> is_file fs full_path
      then check_files_loop fs rest
             (self\<lparr>passed := passed self @ [lit ''File exists: '' @ file_path]\<rparr>)
      else check_files_loop fs rest
             (self\<lparr>errors := errors self @ [lit ''Missing file: '' @ file_path]\<rparr>))"

definition check_required_files :: "fs \<Rightarrow> 'a check" where
  "check_required_files fs self = (check_files_loop fs required_files self, None)"

subsection \<open>\<open>check_imports\<close>\<close>

definition import_tests :: "(str \<times> str) list" where
  "import_tests =
     [(lit ''src.utils.config'', lit ''Config utilities''),
      (lit ''src.utils.data_utils'', lit ''Data utilities''),
      (lit ''src.utils.logging_utils'', lit ''Logging utilities''),
      (lit ''src.models.message_passing'', lit ''Message passing model'')]"

text \<open>
  The loop over the modules.  Its \<open>except Exception\<close> records what \<open>find_spec\<close> raises
  when that is an \<open>Exception\<close>; any other exception leaves the loop and the check.
\<close>

fun check_imports_loop ::
  "env \<Rightarrow> (str \<times> str) list \<Rightarrow> 'a validator_scheme \<Rightarrow> 'a validator_scheme \<times> py_exn option" where
  "check_imports_loop env [] self = (self, None)"
| "check_imports_loop env ((module_name, description) # rest) self =
     (case find_spec env module_name of
        Inr found \<Rightarrow>
          if found
          then check_imports_loop env rest
                 (self\<lparr>passed := passed self @ [lit ''Import works: '' @ module_name]\<rparr>)
          else check_imports_loop env rest
                 (self\<lparr>warnings := warnings self @ [lit ''Module not found: '' @ module_name]\<rparr>)
      | Inl e \<Rightarrow>
          if is_exception e
          then check_imports_loop env rest
                 (self\<lparr>errors := errors self @
                          [lit ''Import failed: '' @ module_name @ lit '' - '' @ exn_str env e]\<rparr>)
          else (self, Some e))"

definition check_imports :: "env \<Rightarrow> 'a check" where
  "check_imports env self = check_imports_loop env import_tests self"

subsection \<open>\<open>check_configuration\<close>\<close>

definition required_sections :: "str list" where
  "required_sections =
     [lit ''system'', lit ''integration'', lit ''training'', lit ''model'', lit ''oed'',
      lit ''paths'']"

text \<open>The loop over the sections; the exception of \<open>section in config\<close> ends it.\<close>

fun check_sections_loop ::
  "yaml \<Rightarrow> str list \<Rightarrow> 'a validator_scheme \<Rightarrow> 'a validator_scheme \<times> py_exn option" where
  "check_sections_loop config [] self = (self, None)"
| "check_sections_loop config (section # rest) self =
     (case py_in section config of
        Inl e \<Rightarrow> (self, Some e)
      | Inr present \<Rightarrow>
          if present
          then check_sections_loop config rest
                 (self\<lparr>passed := passed self @ [lit ''Config section exists: '' @ section]\<rparr>)
          else check_sections_loop config rest
                 (self\<lparr>warnings := warnings self @ [lit ''Config section missing: '' @ section]\<rparr>))"

text \<open>
  The two handlers of the \<open>try\<close> statement: a \<open>yaml.YAMLError\<close> goes to the first, any
  other \<open>Exception\<close> to the second; an exception that is no \<open>Exception\<close> passes both and
  leaves the check.
\<close>

definition config_handler ::
  "env \<Rightarrow> py_exn \<Rightarrow> 'a validator_scheme \<Rightarrow> 'a validator_scheme \<times> py_exn option" where
  "config_handler env e self =
     (case e of
        YAMLError m \<Rightarrow>
          (self\<lparr>errors := errors self @ [lit ''Invalid YAML: '' @ exn_str env e]\<rparr>, None)
      | _ \<Rightarrow>
          if is_exception e
          then (self\<lparr>errors := errors self @ [lit ''Config check failed: '' @ exn_str env e]\<rparr>,
                None)
          else (self, Some e))"

text \<open>
  When \<open>import yaml\<close> fails inside the \<open>try\<close>, the name \<open>yaml\<close> of the first handler's
  \<open>except yaml.YAMLError\<close> is unbound, and the check raises \<open>UnboundLocalError\<close>.
\<close>

definition check_configuration :: "env \<Rightarrow> fs \<Rightarrow> 'a check" where
  "check_configuration env fs self =
     (let config_file = joinpath (joinpath (project_root self) (lit ''configs''))
                          (lit ''default_config.yaml'') in
      if \<not> exists fs config_file then
        (self\<lparr>errors := errors self @ [lit ''Configuration file not found'']\<rparr>, None)
      else if \<not> yaml_installed env then (self, Some (UnboundLocalError (lit ''yaml'')))
      else
        (case read_text fs config_file of
           Inl e \<Rightarrow> config_handler env e self
         | Inr text \<Rightarrow>
             (case safe_load env text of
                Inl e \<Rightarrow> config_handler env e self
              | Inr config \<Rightarrow>
                  (case check_sections_loop config required_sections self of
                     (self', Some e) \<Rightarrow> config_handler env e self'
                   | (self', None) \<Rightarrow> (self', None)))))"

subsection \<open>\<open>check_documentation\<close>\<close>

definition doc_files :: "(str \<times> str) list" where
  "doc_files =
     [(lit ''README.md'', lit ''Main README''),
      (lit ''REORGANIZATION_GUIDE.md'', lit ''Reorganization guide'')]"

fun check_documentation_loop ::
  "fs \<Rightarrow> (str \<times> str) list \<Rightarrow> 'a validator_scheme \<Rightarrow> 'a validator_scheme \<times> py_exn option" where
  "check_documentation_loop fs [] self = (self, None)"
| "check_documentation_loop fs ((file_name, description) # rest) self =
     (let file_path = joinpath (project_root self) file_name in
      if exists fs file_path then
        (case read_text fs file_path of
           Inl e \<Rightarrow> (self, Some e)
         | Inr content \<Rightarrow>
             if length (strip content) > 100
             then check_documentation_loop fs rest
                    (self\<lparr>passed := passed self @ [lit ''Documentation exists: '' @ file_name]\<rparr>)
             else check_documentation_loop fs rest
                    (self\<lparr>warnings := warnings self @
                             [lit ''Documentation too short: '' @ file_name]\<rparr>))
      else check_documentation_loop fs rest
             (self\<lparr>warnings := warnings self @ [lit ''Documentation missing: '' @ file_name]\<rparr>))"

definition check_documentation :: "fs \<Rightarrow> 'a check" where
  "check_documentation fs self = check_documentation_loop fs doc_files self"

subsection \<open>\<open>validate_all\<close> and \<open>main\<close>\<close>

definition checks :: "env \<Rightarrow> fs \<Rightarrow> (str \<times> 'a check) list" where
  "checks env fs =
     [(lit ''Directory Structure'', check_directory_structure fs),
      (lit ''Required Files'', check_required_files fs),
      (lit ''Python Imports'', check_imports env),
      (lit ''Configuration'', check_configuration env fs),
      (lit ''Documentation'', check_documentation fs)]"

text \<open>
  The loop of \<open>validate_all\<close>: each check runs inside \<open>try\<close> ... \<open>except Exception\<close>.  An
  \<open>Exception\<close> becomes an entry of the error bucket and the loop goes on; any other
  exception leaves the loop and \<open>validate_all\<close>.  The result is the validator and the
  exception that left the loop, if any.
\<close>

fun run_checks ::
  "env \<Rightarrow> (str \<times> 'a check) list \<Rightarrow> 'a validator_scheme \<Rightarrow> 'a validator_scheme \<times> py_exn option" where
  "run_checks env [] self = (self, None)"
| "run_checks env ((check_name, check_func) # rest) self =
     (case check_func self of
        (self', None) \<Rightarrow> run_checks env rest self'
      | (self', Some e) \<Rightarrow>
          if is_exception e
          then run_checks env rest
                 (self'\<lparr>errors := errors self' @ [check_name @ lit '': '' @ exn_str env e]\<rparr>)
          else (self', Some e))"

text \<open>
  A log of the checks that ran, to state that the loop runs each check once: a check over
  the plain validator is run on a validator that carries the list of the names of the
  checks run so far as an additional field, and adds its own name when it has run (also
  when it raises).
\<close>

definition logged :: "str \<times> unit check \<Rightarrow> str \<times> (str list) check" where
  "logged c =
     (fst c,
      \<lambda>self. case snd c (validator.truncate self) of
                (self', e) \<Rightarrow> (validator.extend self' (validator.more self @ [fst c]), e))"

text \<open>
  \<open>validate_all\<close> returns whether the error bucket is empty, or raises what left the
  loop; the validator is returned with it.
\<close>

definition validate_all ::
  "env \<Rightarrow> fs \<Rightarrow> 'a validator_scheme \<Rightarrow> (py_exn + bool) \<times> 'a validator_scheme" where
  "validate_all env fs self =
     (case run_checks env (checks env fs) self of
        (self', Some e) \<Rightarrow> (Inl e, self')
      | (self', None) \<Rightarrow> (Inr (length (errors self') = 0), self'))"

text \<open>
  How the process ends: with an exit status, or killed by the interrupt signal after an
  uncaught \<open>KeyboardInterrupt\<close>.  An uncaught \<open>SystemExit\<close> gives its code as the status
  (the low eight bits of it), any other uncaught exception the status 1.
\<close>

datatype outcome = Exit int | Interrupted

fun uncaught :: "py_exn \<Rightarrow> outcome" where
  "uncaught (SystemExit code) = Exit (code mod 256)"
| "uncaught KeyboardInterrupt = Interrupted"
| "uncaught e = Exit 1"

text \<open>\<open>main\<close>: \<open>sys.exit(0 if success else 1)\<close> after \<open>validate_all\<close>.\<close>

definition main :: "env \<Rightarrow> fs \<Rightarrow> path \<Rightarrow> outcome" where
  "main env fs root =
     (let validator = ProjectValidator root in
      case fst (validate_all env fs validator) of
        Inl e \<Rightarrow> uncaught e
      | Inr success \<Rightarrow> Exit (if success then 0 else 1))"

section \<open>Properties of the file-system operations\<close>

lemma lit_inj [simp]: "lit a = lit b \<longleftrightarrow> a = b"
  by (simp add: lit_def inj_map_eq_map inj_of_char)

lemma lookup_Nil [simp]: "lookup fs [] = Some Dir"
  by (simp add: lookup_def)

lemma lookup_Cons [simp]: "lookup fs (c # p) = fs (c # p)"
  by (simp add: lookup_def)

lemma lookup_snoc [simp]: "lookup fs (p @ [c]) = fs (p @ [c])"
  by (simp add: lookup_def)

lemma mkdir_rev_is_dir: "lookup fs (rev rp) = Some Dir \<Longrightarrow> mkdir_rev fs rp = Inr fs"
  by (cases rp) simp_all

lemma mkdir_parents_is_dir: "is_dir fs p \<Longrightarrow> mkdir_parents fs p = Inr fs"
  by (simp add: mkdir_parents_def is_dir_def mkdir_rev_is_dir)

lemma mkdir_rev_effect:
  "mkdir_rev fs rp = Inr fs' \<Longrightarrow>
     fs \<subseteq>\<^sub>m fs' \<and> lookup fs' (rev rp) = Some Dir \<and>
     (\<forall>q. fs' q \<noteq> fs q \<longrightarrow> prefix q (rev rp) \<and> fs' q = Some Dir)"
proof (induction rp arbitrary: fs')
  case Nil
  then show ?case by simp
next
  case (Cons c rp)
  let ?p = "rev rp @ [c]"
  show ?case
  proof (cases "fs ?p")
    case (Some n)
    with Cons.prems show ?thesis
      by (cases n) auto
  next
    case None
    with Cons.prems obtain fs1 where
      rec: "mkdir_rev fs rp = Inr fs1" and fs': "fs' = fs1(?p \<mapsto> Dir)"
      by (auto split: if_splits sum.splits)
    from Cons.IH [OF rec] have
      le: "fs \<subseteq>\<^sub>m fs1" and ch: "\<forall>q. fs1 q \<noteq> fs q \<longrightarrow> prefix q (rev rp) \<and> fs1 q = Some Dir"
      by simp_all
    have "fs \<subseteq>\<^sub>m fs'"
      using le None unfolding fs' map_le_def by (auto simp: dom_def)
    moreover have "lookup fs' (rev (c # rp)) = Some Dir"
      by (simp add: fs')
    moreover have "\<forall>q. fs' q \<noteq> fs q \<longrightarrow> prefix q (rev (c # rp)) \<and> fs' q = Some Dir"
      using ch by (auto simp: fs')
    ultimately show ?thesis by blast
  qed
qed

lemma mkdir_parents_effect:
  assumes "mkdir_parents fs p = Inr fs'"
  shows "fs \<subseteq>\<^sub>m fs'" and "is_dir fs' p"
    and "\<And>q. fs' q \<noteq> fs q \<Longrightarrow> prefix q p \<and> fs' q = Some Dir"
  using mkdir_rev_effect [of fs "rev p" fs'] assms
  by (simp_all add: mkdir_parents_def is_dir_def)

lemma mkdir_parents_frame:
  "mkdir_parents fs p = Inr fs' \<Longrightarrow> \<not> prefix q p \<Longrightarrow> fs' q = fs q"
  using mkdir_parents_effect(3) by blast

lemma under_file_rev_witness:
  "under_file_rev fs rp \<Longrightarrow> \<exists>q. strict_prefix q (rev rp) \<and> is_file fs q"
proof (induction rp)
  case Nil
  then show ?case by simp
next
  case (Cons c rp)
  show ?case
  proof (cases "lookup fs (rev rp)")
    case None
    with Cons obtain q where "strict_prefix q (rev rp)" "is_file fs q" by auto
    then show ?thesis
      by (metis prefix_order.dual_order.strict_trans rev.simps(2) strict_prefixI' )
  next
    case (Some n)
    with Cons.prems obtain t where "lookup fs (rev rp) = Some (File t)"
      by (cases n) auto
    then have "is_file fs (rev rp)" by (simp add: is_file_def)
    then show ?thesis
      by (metis rev.simps(2) strict_prefixI')
  qed
qed

lemma mkdir_rev_succeeds:
  "\<forall>q. prefix q (rev rp) \<longrightarrow> \<not> is_file fs q \<Longrightarrow> \<exists>fs'. mkdir_rev fs rp = Inr fs'"
proof (induction rp)
  case Nil
  then show ?case by simp
next
  case (Cons c rp)
  have nf: "\<not> under_file_rev fs (c # rp)"
    using under_file_rev_witness [of fs "c # rp"] Cons.prems by (auto simp: strict_prefix_def)
  have "\<forall>q. prefix q (rev rp) \<longrightarrow> \<not> is_file fs q"
    using Cons.prems by (auto simp: prefix_def)
  from Cons.IH [OF this] obtain fs1 where rec: "mkdir_rev fs rp = Inr fs1" ..
  have "\<not> is_file fs (rev (c # rp))" using Cons.prems by blast
  then show ?case
    using nf rec by (cases "fs (rev rp @ [c])") (auto simp: is_file_def split: node.splits)
qed

lemma mkdir_parents_succeeds:
  "\<forall>q. prefix q p \<longrightarrow> \<not> is_file fs q \<Longrightarrow> \<exists>fs'. mkdir_parents fs p = Inr fs'"
  using mkdir_rev_succeeds [of "rev p" fs] by (simp add: mkdir_parents_def)

lemma is_dir_mono: "fs \<subseteq>\<^sub>m fs' \<Longrightarrow> is_dir fs p \<Longrightarrow> is_dir fs' p"
  by (auto simp: is_dir_def lookup_def map_le_def dom_def split: if_splits)

lemma exists_mono: "fs \<subseteq>\<^sub>m fs' \<Longrightarrow> exists fs p \<Longrightarrow> exists fs' p"
  by (auto simp: exists_def lookup_def map_le_def dom_def split: if_splits)

lemma not_exists_iff: "\<not> exists fs p \<longleftrightarrow> p \<noteq> [] \<and> fs p = None"
  by (simp add: exists_def lookup_def)

lemma prefix_butlast_self: "p \<noteq> [] \<Longrightarrow> \<not> prefix p (butlast p)"
  by (metis prefix_length_le length_butlast diff_le_self length_greater_0_conv
      diff_less less_numeral_extra(1) not_less)

lemma decode_encode [simp]: "decode (encode t) = Inr t"
  by (induction t) (simp_all add: encode_def)

lemma encode_append: "encode (a @ b) = encode a @ encode b"
  by (simp add: encode_def)

lemma universal_newlines_Cons: "c \<noteq> 13 \<Longrightarrow> universal_newlines (c # cs) = c # universal_newlines cs"
  by (cases cs) simp_all

lemma read_text_File:
  "lookup fs p = Some (File d) \<Longrightarrow>
   read_text fs p = (case decode d of Inl e \<Rightarrow> Inl e | Inr t \<Rightarrow> Inr (universal_newlines t))"
  by (simp add: read_text_def read_bytes_def)


lemma replicate_60:
  "replicate 60 x =
     [x, x, x, x, x, x, x, x, x, x, x, x, x, x, x, x, x, x, x, x,
      x, x, x, x, x, x, x, x, x, x, x, x, x, x, x, x, x, x, x, x,
      x, x, x, x, x, x, x, x, x, x, x, x, x, x, x, x, x, x, x, x]"
  by (simp add: numeral_eq_Suc)

subsection \<open>Appending transfers\<close>



subsection \<open>Header annotation\<close>

lemma strip_marker: "startswith (strip (34 # 34 # 34 # rest)) triple_double"
proof -
  have ns: "\<not> is_space 34" by (simp add: is_space_def)
  have "\<exists>ys. dropWhile is_space (rev rest @ [34, 34, 34]) = ys @ [34, 34, 34]"
    using ns by (cases "\<forall>x\<in>set (rev rest). is_space x") (auto simp: dropWhile_append)
  then obtain ys where "dropWhile is_space (rev rest @ [34, 34, 34]) = ys @ [34, 34, 34]" ..
  then have "strip (34 # 34 # 34 # rest) = 34 # 34 # 34 # rev ys"
    using ns by (simp add: strip_def)
  then show ?thesis
    by (simp add: startswith_def triple_double_def)
qed

lemma strip_header: "startswith (strip (universal_newlines (header d @ c))) triple_double"
proof -
  obtain rest where h: "header d @ c = 34 # 34 # 34 # rest"
    by (simp add: header_def triple_double_def)
  show ?thesis
    unfolding h by (simp add: universal_newlines_Cons strip_marker)
qed

text \<open>
  Claim C6.  On a regular file whose data can be read as text, \<open>add_file_header\<close>
  returns, and running it again on the result changes nothing; if the text read, stripped
  of surrounding whitespace, already starts with one of the two triple-quote markers, the
  first run changes nothing either.  On a regular file whose data cannot be decoded the
  operation raises \<open>UnicodeDecodeError\<close> at the read, before anything is written.
\<close>

theorem add_file_header_idempotent:
  assumes "lookup fs file_path = Some (File stored)"
  shows "case decode stored of
           Inl e \<Rightarrow> add_file_header file_path description fs = Inl e
         | Inr text \<Rightarrow>
             (\<exists>fs1. add_file_header file_path description fs = Inr fs1 \<and>
                    add_file_header file_path description fs1 = Inr fs1 \<and>
                    (startswith (strip (universal_newlines text)) triple_double \<or>
                     startswith (strip (universal_newlines text)) triple_single \<longrightarrow> fs1 = fs))"
proof (cases "decode stored")
  case (Inl e)
  then show ?thesis
    using assms by (simp add: add_file_header_def read_text_File)
next
  case (Inr t)
  let ?content = "universal_newlines t"
  have r: "read_text fs file_path = Inr ?content"
    using assms Inr by (simp add: read_text_File)
  have "\<exists>fs1. add_file_header file_path description fs = Inr fs1 \<and>
              add_file_header file_path description fs1 = Inr fs1 \<and>
              (startswith (strip ?content) triple_double \<or>
               startswith (strip ?content) triple_single \<longrightarrow> fs1 = fs)"
  proof (cases "startswith (strip ?content) triple_double \<or>
                startswith (strip ?content) triple_single")
    case True
    then show ?thesis
      using r by (auto simp: add_file_header_def)
  next
    case False
    let ?fs1 = "fs(file_path \<mapsto> File (encode (header description @ ?content)))"
    have p: "file_path \<noteq> []"
      using assms by (auto simp: lookup_def)
    have first: "add_file_header file_path description fs = Inr ?fs1"
      using assms r False by (simp add: add_file_header_def write_text_def write_bytes_def)
    have "lookup ?fs1 file_path = Some (File (encode (header description @ ?content)))"
      using p by (simp add: lookup_def)
    then have "read_text ?fs1 file_path = Inr (universal_newlines (header description @ ?content))"
      by (simp add: read_text_File)
    then have "add_file_header file_path description ?fs1 = Inr ?fs1"
      by (simp add: add_file_header_def strip_header)
    with first False show ?thesis by simp
  qed
  with Inr show ?thesis by simp
qed

text \<open>
  C6 on a file without a docstring, whose line ends with a carriage return and a line
  feed: the header is added once, before the text as it was read.
\<close>

theorem add_file_header_idempotent_witness:
  "\<exists>fs1. add_file_header [lit ''m.py''] (lit ''Doc'')
           [[lit ''m.py''] \<mapsto> File (encode (lit ''x = 1'' @ [13, 10]))] = Inr fs1 \<and>
         add_file_header [lit ''m.py''] (lit ''Doc'') fs1 = Inr fs1 \<and>
         fs1 [lit ''m.py''] = Some (File (encode (header (lit ''Doc'') @ lit ''x = 1'' @ [10])))"
proof -
  let ?fs = "[[lit ''m.py''] \<mapsto> File (encode (lit ''x = 1'' @ [13, 10]))]"
  have l: "lookup ?fs [lit ''m.py''] = Some (File (encode (lit ''x = 1'' @ [13, 10])))"
    by simp
  from add_file_header_idempotent [OF l, of "lit ''Doc''"] obtain fs1 where
    a: "add_file_header [lit ''m.py''] (lit ''Doc'') ?fs = Inr fs1" and
    b: "add_file_header [lit ''m.py''] (lit ''Doc'') fs1 = Inr fs1"
    by auto
  have "add_file_header [lit ''m.py''] (lit ''Doc'') ?fs =
          Inr (?fs([lit ''m.py''] \<mapsto> File (encode (header (lit ''Doc'') @ lit ''x = 1'' @ [10]))))"
    by (simp add: add_file_header_def read_text_File write_text_def write_bytes_def strip_def
        startswith_def triple_double_def triple_single_def is_space_def lit_def)
  with a b show ?thesis by auto
qed

subsection \<open>Header annotation of a missing path\<close>

text \<open>
  Claim C7 as stated fails: called on a path that does not exist, \<open>add_file_header\<close>
  raises \<open>FileNotFoundError\<close> when it opens the file for reading.
\<close>

theorem add_file_header_missing_raises:
  "add_file_header [lit ''src'', lit ''core'', lit ''mocu_cuda.py'']
     (lit ''CUDA-accelerated MOCU computation'') Map.empty =
   Inl (FileNotFoundError [lit ''src'', lit ''core'', lit ''mocu_cuda.py''])"
  by (simp add: add_file_header_def read_text_def read_bytes_def absent_exn_def)

text \<open>
  Claim C7, amended.  The header loop of \<open>migrate_files\<close> tests the existence of the path
  before it calls \<open>add_file_header\<close>: for a path that does not exist the call is skipped,
  nothing is raised and nothing changes.  The operation itself raises on such a path:
  \<open>NotADirectoryError\<close> when the path leads through a regular file, \<open>FileNotFoundError\<close>
  otherwise.
\<close>

theorem add_header_if_exists_missing:
  "\<not> exists (files w) (joinpath new_base file_rel) \<Longrightarrow>
   add_header_if_exists new_base (file_rel, description) w = Inr w \<and>
   add_file_header (joinpath new_base file_rel) description (files w) =
     Inl (if under_file_rev (files w) (rev (joinpath new_base file_rel))
          then NotADirectoryError (joinpath new_base file_rel)
          else FileNotFoundError (joinpath new_base file_rel))"
  by (simp add: add_header_if_exists_def add_file_header_def read_text_def read_bytes_def
      exists_def absent_exn_def)

text \<open>The amended C7 on an empty file system.\<close>

theorem add_header_if_exists_missing_witness:
  "add_header_if_exists [lit ''new''] (lit ''src/core/mocu_cuda.py'',
       lit ''CUDA-accelerated MOCU computation'') \<lparr>files = Map.empty, stdout = []\<rparr> =
     Inr \<lparr>files = Map.empty, stdout = []\<rparr> \<and>
   add_file_header [lit ''new'', lit ''src'', lit ''core'', lit ''mocu_cuda.py'']
       (lit ''CUDA-accelerated MOCU computation'') Map.empty =
     Inl (FileNotFoundError [lit ''new'', lit ''src'', lit ''core'', lit ''mocu_cuda.py''])"
  using add_header_if_exists_missing [of "\<lparr>files = Map.empty, stdout = []\<rparr>" "[lit ''new'']"
      "lit ''src/core/mocu_cuda.py''" "lit ''CUDA-accelerated MOCU computation''"]
  by (simp add: exists_def joinpath_def split_path_def startswith_def lit_def)

subsection \<open>Directory provisioning\<close>

lemma joinpath_init: "joinpath p (lit ''__init__.py'') = p @ [lit ''__init__.py'']"
  by (simp add: joinpath_def split_path_def startswith_def lit_def)

lemma write_text_new:
  "\<not> exists fs p \<Longrightarrow> is_dir fs (parent p) \<Longrightarrow> write_text fs p t = Inr (fs(p \<mapsto> File (encode t)))"
  by (simp add: write_text_def write_bytes_def exists_def is_dir_def)

lemma map_le_upd_new: "fs p = None \<Longrightarrow> fs \<subseteq>\<^sub>m fs(p \<mapsto> n)"
  by (auto simp: map_le_def)

lemma ensure_directory_cases:
  assumes "ensure_directory base d fs = Inr fs1"
  obtains fs' where "mkdir_parents fs (joinpath base d) = Inr fs'"
    and "fs1 = (if startswith d (lit ''src/'') \<and> \<not> exists fs' (joinpath base d @ [lit ''__init__.py''])
                then fs'(joinpath base d @ [lit ''__init__.py''] \<mapsto> File (encode init_text)) else fs')"
proof -
  from assms obtain fs' where mk: "mkdir_parents fs (joinpath base d) = Inr fs'"
    by (auto simp: ensure_directory_def split: sum.splits)
  have dir: "is_dir fs' (joinpath base d)"
    using mkdir_parents_effect(2) [OF mk] .
  have "fs1 = (if startswith d (lit ''src/'') \<and> \<not> exists fs' (joinpath base d @ [lit ''__init__.py''])
                then fs'(joinpath base d @ [lit ''__init__.py''] \<mapsto> File (encode init_text)) else fs')"
    using assms mk dir
    by (auto simp: ensure_directory_def joinpath_init Let_def write_text_new parent_def
        split: if_splits)
  with mk show thesis by (rule that)
qed

lemma ensure_directory_mono:
  assumes "ensure_directory base d fs = Inr fs1"
  shows "fs \<subseteq>\<^sub>m fs1"
proof -
  from assms obtain fs' where mk: "mkdir_parents fs (joinpath base d) = Inr fs'"
    and fs1: "fs1 = (if startswith d (lit ''src/'') \<and> \<not> exists fs' (joinpath base d @ [lit ''__init__.py''])
                then fs'(joinpath base d @ [lit ''__init__.py''] \<mapsto> File (encode init_text)) else fs')"
    by (rule ensure_directory_cases)
  have "fs' \<subseteq>\<^sub>m fs1"
    unfolding fs1 by (auto simp: not_exists_iff intro: map_le_upd_new)
  with mkdir_parents_effect(1) [OF mk] show ?thesis
    by (rule map_le_trans)
qed

lemma ensure_directory_done:
  assumes "ensure_directory base d fs = Inr fs1"
  shows "is_dir fs1 (joinpath base d)"
    and "startswith d (lit ''src/'') \<Longrightarrow> exists fs1 (joinpath base d @ [lit ''__init__.py''])"
proof -
  from assms obtain fs' where mk: "mkdir_parents fs (joinpath base d) = Inr fs'"
    and fs1: "fs1 = (if startswith d (lit ''src/'') \<and> \<not> exists fs' (joinpath base d @ [lit ''__init__.py''])
                then fs'(joinpath base d @ [lit ''__init__.py''] \<mapsto> File (encode init_text)) else fs')"
    by (rule ensure_directory_cases)
  have dir: "is_dir fs' (joinpath base d)"
    using mkdir_parents_effect(2) [OF mk] .
  have "fs' \<subseteq>\<^sub>m fs1"
    unfolding fs1 by (auto simp: not_exists_iff intro: map_le_upd_new)
  then show "is_dir fs1 (joinpath base d)"
    using dir by (rule is_dir_mono)
  show "exists fs1 (joinpath base d @ [lit ''__init__.py''])" if "startswith d (lit ''src/'')"
    unfolding fs1 using that by (auto simp: exists_def)
qed

lemma ensure_directory_stable:
  assumes "ensure_directory base d fs = Inr fs1" and "fs1 \<subseteq>\<^sub>m fs2"
  shows "ensure_directory base d fs2 = Inr fs2"
proof -
  have "is_dir fs2 (joinpath base d)"
    using ensure_directory_done(1) [OF assms(1)] assms(2) is_dir_mono by blast
  then have mk: "mkdir_parents fs2 (joinpath base d) = Inr fs2"
    by (rule mkdir_parents_is_dir)
  show ?thesis
  proof (cases "startswith d (lit ''src/'')")
    case True
    then have "exists fs2 (joinpath base d @ [lit ''__init__.py''])"
      using ensure_directory_done(2) [OF assms(1)] assms(2) exists_mono by blast
    with mk True show ?thesis
      by (simp add: ensure_directory_def joinpath_init)
  next
    case False
    with mk show ?thesis by (simp add: ensure_directory_def)
  qed
qed

lemma ensure_directory_changes:
  assumes "ensure_directory base d fs = Inr fs1" and "fs1 q \<noteq> fs q"
  shows "(prefix q (joinpath base d) \<and> fs1 q = Some Dir) \<or>
         (startswith d (lit ''src/'') \<and> q = joinpath base d @ [lit ''__init__.py''] \<and>
          fs1 q = Some (File (encode init_text)))"
proof -
  from assms(1) obtain fs' where mk: "mkdir_parents fs (joinpath base d) = Inr fs'"
    and fs1: "fs1 = (if startswith d (lit ''src/'') \<and> \<not> exists fs' (joinpath base d @ [lit ''__init__.py''])
                then fs'(joinpath base d @ [lit ''__init__.py''] \<mapsto> File (encode init_text)) else fs')"
    by (rule ensure_directory_cases)
  show ?thesis
  proof (cases "fs1 q = fs' q")
    case True
    with assms(2) have "fs' q \<noteq> fs q" by simp
    from mkdir_parents_effect(3) [OF mk this] True show ?thesis by simp
  next
    case False
    then show ?thesis
      unfolding fs1 by (auto split: if_splits)
  qed
qed

lemma ensure_loop_mono:
  "ensure_loop base ds fs = Inr fs1 \<Longrightarrow> fs \<subseteq>\<^sub>m fs1"
proof (induction ds arbitrary: fs)
  case Nil
  then show ?case by simp
next
  case (Cons d ds)
  then obtain fsa where a: "ensure_directory base d fs = Inr fsa" and b: "ensure_loop base ds fsa = Inr fs1"
    by (auto split: sum.splits)
  from ensure_directory_mono [OF a] Cons.IH [OF b] show ?case
    by (rule map_le_trans)
qed

lemma ensure_loop_stable:
  "ensure_loop base ds fs = Inr fs1 \<Longrightarrow> fs1 \<subseteq>\<^sub>m fs2 \<Longrightarrow> ensure_loop base ds fs2 = Inr fs2"
proof (induction ds arbitrary: fs)
  case Nil
  then show ?case by simp
next
  case (Cons d ds)
  then obtain fsa where a: "ensure_directory base d fs = Inr fsa" and b: "ensure_loop base ds fsa = Inr fs1"
    by (auto split: sum.splits)
  have "fsa \<subseteq>\<^sub>m fs2"
    using ensure_loop_mono [OF b] Cons.prems(2) by (rule map_le_trans)
  then have "ensure_directory base d fs2 = Inr fs2"
    using a ensure_directory_stable by blast
  moreover have "ensure_loop base ds fs2 = Inr fs2"
    using Cons.IH [OF b Cons.prems(2)] .
  ultimately show ?case by simp
qed

lemma ensure_loop_changes:
  "ensure_loop base ds fs = Inr fs1 \<Longrightarrow> fs1 q \<noteq> fs q \<Longrightarrow>
     \<exists>d\<in>set ds. (prefix q (joinpath base d) \<and> fs1 q = Some Dir) \<or>
         (startswith d (lit ''src/'') \<and> q = joinpath base d @ [lit ''__init__.py''] \<and>
          fs1 q = Some (File (encode init_text)))"
proof (induction ds arbitrary: fs)
  case Nil
  then show ?case by simp
next
  case (Cons d ds)
  then obtain fsa where a: "ensure_directory base d fs = Inr fsa" and b: "ensure_loop base ds fsa = Inr fs1"
    by (auto split: sum.splits)
  show ?case
  proof (cases "fsa q = fs q")
    case True
    with Cons.prems(2) have "fs1 q \<noteq> fsa q" by simp
    from Cons.IH [OF b this] show ?thesis by auto
  next
    case False
    from ensure_directory_changes [OF a False] obtain n where n: "fsa q = Some n" by auto
    then have "fs1 q = fsa q"
      using ensure_loop_mono [OF b] by (metis domI map_le_def)
    with ensure_directory_changes [OF a False] show ?thesis by auto
  qed
qed

lemma ensure_loop_done:
  "ensure_loop base ds fs = Inr fs1 \<Longrightarrow> d \<in> set ds \<Longrightarrow>
     is_dir fs1 (joinpath base d) \<and>
     (startswith d (lit ''src/'') \<longrightarrow> exists fs1 (joinpath base d @ [lit ''__init__.py'']))"
proof (induction ds arbitrary: fs)
  case Nil
  then show ?case by simp
next
  case (Cons d' ds)
  then obtain fsa where a: "ensure_directory base d' fs = Inr fsa" and b: "ensure_loop base ds fsa = Inr fs1"
    by (auto split: sum.splits)
  show ?case
  proof (cases "d = d'")
    case True
    with ensure_directory_done [OF a] ensure_loop_mono [OF b] show ?thesis
      using is_dir_mono exists_mono by blast
  next
    case False
    with Cons.prems(2) have "d \<in> set ds" by simp
    from Cons.IH [OF b this] show ?thesis .
  qed
qed

text \<open>
  Claim C8.  When \<open>ensure_directories\<close> has run on a root, running it again on the result
  does not raise and returns the same file system; whatever existed before the run (a
  directory, or a marker file with its text) exists unchanged after it; and every path the
  run changes did not exist before: it is a listed directory or one of its ancestors, now
  a directory, or the \<open>__init__.py\<close> of a listed directory under \<open>src/\<close>, now holding the
  placeholder text.
\<close>

theorem ensure_directories_idempotent:
  assumes "ensure_directories base_path fs = Inr fs1"
  shows "ensure_directories base_path fs1 = Inr fs1 \<and>
         (\<forall>q n. fs q = Some n \<longrightarrow> fs1 q = Some n) \<and>
         (\<forall>q. fs1 q \<noteq> fs q \<longrightarrow>
            (\<exists>d\<in>set dirs. (prefix q (joinpath base_path d) \<and> fs1 q = Some Dir) \<or>
               (startswith d (lit ''src/'') \<and> q = joinpath (joinpath base_path d) (lit ''__init__.py'') \<and>
                fs q = None \<and> fs1 q = Some (File (encode init_text)))))"
proof (intro conjI allI impI)
  from assms have run: "ensure_loop base_path dirs fs = Inr fs1"
    by (simp add: ensure_directories_def)
  show "ensure_directories base_path fs1 = Inr fs1"
    using ensure_loop_stable [OF run map_le_refl] by (simp add: ensure_directories_def)
  have le: "fs \<subseteq>\<^sub>m fs1" using ensure_loop_mono [OF run] .
  show "fs1 q = Some n" if "fs q = Some n" for q n
    using le that by (metis domI map_le_def)
  show "\<exists>d\<in>set dirs. (prefix q (joinpath base_path d) \<and> fs1 q = Some Dir) \<or>
               (startswith d (lit ''src/'') \<and> q = joinpath (joinpath base_path d) (lit ''__init__.py'') \<and>
                fs q = None \<and> fs1 q = Some (File (encode init_text)))" if ch: "fs1 q \<noteq> fs q" for q
  proof -
    have "fs q = None"
      using le ch by (metis domIff map_le_def)
    with ensure_loop_changes [OF run ch] show ?thesis
      by (auto simp: joinpath_init)
  qed
qed

text \<open>
  C8 on a root where \<open>src/core/__init__.py\<close> already holds a text of its own: the text is
  kept, and the missing markers are written.
\<close>

theorem ensure_directories_idempotent_witness:
  "\<exists>fs1. ensure_directories [lit ''proj'']
            [[lit ''proj''] \<mapsto> Dir, [lit ''proj'', lit ''src''] \<mapsto> Dir,
             [lit ''proj'', lit ''src'', lit ''core''] \<mapsto> Dir,
             [lit ''proj'', lit ''src'', lit ''core'', lit ''__init__.py''] \<mapsto> File (encode (lit ''import x''))]
          = Inr fs1 \<and>
         ensure_directories [lit ''proj''] fs1 = Inr fs1 \<and>
         fs1 [lit ''proj'', lit ''src'', lit ''core'', lit ''__init__.py''] = Some (File (encode (lit ''import x''))) \<and>
         fs1 [lit ''proj'', lit ''src'', lit ''utils'', lit ''__init__.py''] = Some (File (encode init_text))"
proof -
  let ?fs = "[[lit ''proj''] \<mapsto> Dir, [lit ''proj'', lit ''src''] \<mapsto> Dir,
             [lit ''proj'', lit ''src'', lit ''core''] \<mapsto> Dir,
             [lit ''proj'', lit ''src'', lit ''core'', lit ''__init__.py''] \<mapsto> File (encode (lit ''import x''))]"
  have "\<exists>fs1. ensure_directories [lit ''proj''] ?fs = Inr fs1 \<and>
          fs1 [lit ''proj'', lit ''src'', lit ''utils'', lit ''__init__.py''] = Some (File (encode init_text))"
    by (simp add: ensure_directories_def dirs_def ensure_directory_def joinpath_def split_path_def
        startswith_def mkdir_parents_def exists_def write_text_def write_bytes_def parent_def lit_def)
  then obtain fs1 where run: "ensure_directories [lit ''proj''] ?fs = Inr fs1"
    and u: "fs1 [lit ''proj'', lit ''src'', lit ''utils'', lit ''__init__.py''] = Some (File (encode init_text))"
    by blast
  from ensure_directories_idempotent [OF run] have
    again: "ensure_directories [lit ''proj''] fs1 = Inr fs1" and
    keep: "\<forall>q n. ?fs q = Some n \<longrightarrow> fs1 q = Some n"
    by blast+
  have "?fs [lit ''proj'', lit ''src'', lit ''core'', lit ''__init__.py''] = Some (File (encode (lit ''import x'')))"
    by simp
  with keep have "fs1 [lit ''proj'', lit ''src'', lit ''core'', lit ''__init__.py''] = Some (File (encode (lit ''import x'')))"
    by blast
  with run again u show ?thesis by blast
qed

subsection \<open>What the migration run can change\<close>

lemma files_print [simp]: "files (print s w) = files w"
  by (simp add: print_def)

lemma write_bytes_changes: "write_bytes fs p d = Inr fs' \<Longrightarrow> fs' q \<noteq> fs q \<Longrightarrow> q = p"
  by (auto simp: write_bytes_def split: option.splits node.splits if_splits)

lemma write_text_changes: "write_text fs p t = Inr fs' \<Longrightarrow> fs' q \<noteq> fs q \<Longrightarrow> q = p"
  unfolding write_text_def by (rule write_bytes_changes)

lemma append_text_changes: "append_text fs p t = Inr fs' \<Longrightarrow> fs' q \<noteq> fs q \<Longrightarrow> q = p"
  by (auto simp: append_text_def split: option.splits node.splits if_splits)

lemma copy2_changes:
  "copy2 fs src dst = Inr fs' \<Longrightarrow> fs' q \<noteq> fs q \<Longrightarrow> q = dst \<or> q = dst @ [name src]"
  by (auto simp: copy2_def Let_def split: if_splits sum.splits dest: write_bytes_changes)

lemma prefix_parent: "prefix q (parent p) \<Longrightarrow> prefix q p"
  by (metis parent_def prefix_order.trans prefixeq_butlast)

lemma copy_file_changes:
  assumes "copy_file src dst a w = Inr (ok, w')" and "files w' q \<noteq> files w q"
  shows "prefix q dst \<or> q = dst @ [name src]"
proof (cases "exists (files w) src")
  case False
  with assms show ?thesis by (auto simp: copy_file_def print_def)
next
  case True
  show ?thesis
  proof (cases "mkdir_parents (files w) (parent dst)")
    case (Inl e)
    with assms(1) True show ?thesis by (simp add: copy_file_def)
  next
    case (Inr fs1)
    let ?step = "if a \<and> exists fs1 dst then
              (case read_text fs1 src of Inl e \<Rightarrow> Inl e
               | Inr content \<Rightarrow> append_text fs1 dst (separator src @ content))
            else copy2 fs1 src dst"
    show ?thesis
    proof (cases ?step)
      case (Inl e)
      with assms(1) True \<open>mkdir_parents (files w) (parent dst) = Inr fs1\<close> show ?thesis
        by (simp add: copy_file_def)
    next
      case step: (Inr fs2)
      with assms(1) True Inr have w': "files w' = fs2"
        by (auto simp: copy_file_def)
      show ?thesis
      proof (cases "fs2 q = fs1 q")
        case True
        with assms(2) w' have "fs1 q \<noteq> files w q" by simp
        from mkdir_parents_effect(3) [OF Inr this] show ?thesis
          by (simp add: prefix_parent)
      next
        case False
        with step have "q = dst \<or> q = dst @ [name src]"
          by (auto split: if_splits sum.splits dest: append_text_changes copy2_changes)
        then show ?thesis by auto
      qed
    qed
  qed
qed

lemma copy_files_changes:
  "copy_files old_base new_base plan (s, f, w) = Inr (s', f', w') \<Longrightarrow> files w' q \<noteq> files w q \<Longrightarrow>
   \<exists>entry\<in>set plan.
      prefix q (joinpath new_base (fst (snd entry))) \<or>
      q = joinpath new_base (fst (snd entry)) @ [name (joinpath old_base (fst entry))]"
proof (induction plan arbitrary: s f w)
  case Nil
  then show ?case by simp
next
  case (Cons entry plan)
  obtain sr dr ni where entry: "entry = (sr, dr, ni)" by (cases entry)
  from Cons.prems(1) obtain ok w1 s1 f1 where
    a: "copy_file (joinpath old_base sr) (joinpath new_base dr)
          (str_contains dr (lit ''Append'')) w = Inr (ok, w1)" and
    b: "copy_files old_base new_base plan (s1, f1, w1) = Inr (s', f', w')"
    by (auto simp: entry Let_def split: sum.splits if_splits)
  show ?case
  proof (cases "files w1 q = files w q")
    case True
    with Cons.prems(2) have "files w' q \<noteq> files w1 q" by simp
    from Cons.IH [OF b this] show ?thesis by auto
  next
    case False
    from copy_file_changes [OF a False] show ?thesis by (simp add: entry)
  qed
qed

lemma add_file_header_changes:
  "add_file_header p d fs = Inr fs' \<Longrightarrow> fs' q \<noteq> fs q \<Longrightarrow> q = p"
  by (auto simp: add_file_header_def split: sum.splits if_splits dest: write_text_changes)

lemma add_headers_changes:
  "add_headers new_base descs w = Inr w' \<Longrightarrow> files w' q \<noteq> files w q \<Longrightarrow>
   \<exists>entry\<in>set descs. q = joinpath new_base (fst entry)"
proof (induction descs arbitrary: w)
  case Nil
  then show ?case by simp
next
  case (Cons entry descs)
  from Cons.prems(1) obtain w1 where
    a: "add_header_if_exists new_base entry w = Inr w1" and
    b: "add_headers new_base descs w1 = Inr w'"
    by (auto split: sum.splits)
  show ?case
  proof (cases "files w1 q = files w q")
    case True
    with Cons.prems(2) have "files w' q \<noteq> files w1 q" by simp
    from Cons.IH [OF b this] show ?thesis by auto
  next
    case False
    with a have "q = joinpath new_base (fst entry)"
      by (cases entry)
         (auto simp: add_header_if_exists_def Let_def print_def split: if_splits sum.splits
               dest: add_file_header_changes)
    then show ?thesis by simp
  qed
qed

lemma migrate_files_stages:
  assumes "migrate_files old_base new_base w = Inr w'"
  shows "\<exists>fs5 s f w6 w7 w9 w10.
    ensure_directories new_base (files w) = Inr fs5 \<and>
    copy_files old_base new_base FILE_MAPPING (0, 0, w6) = Inr (s, f, w7) \<and>
    files w6 = fs5 \<and>
    add_headers new_base file_descriptions w9 = Inr w10 \<and>
    files w9 = files w7 \<and>
    create_migration_report new_base s f (files w10) = Inr (files w')"
  using assms
  apply (clarsimp simp: migrate_files_def Let_def split: sum.splits prod.splits)
  apply (intro exI conjI)
      apply assumption
     apply simp
    apply assumption
   apply simp
  apply simp
  done

subsection \<open>The required-files check after a migration\<close>

lemma check_files_loop_keeps:
  "project_root (check_files_loop fs fl self) = project_root self \<and>
   set (errors self) \<subseteq> set (errors (check_files_loop fs fl self))"
proof (induction fl arbitrary: self)
  case Nil
  then show ?case by simp
next
  case (Cons a fl)
  show ?case
    using Cons.IH [of "self\<lparr>passed := passed self @ [lit ''File exists: '' @ a]\<rparr>"]
          Cons.IH [of "self\<lparr>errors := errors self @ [lit ''Missing file: '' @ a]\<rparr>"]
    by (auto simp: Let_def)
qed

lemma check_files_loop_missing:
  "file_path \<in> set fl \<Longrightarrow>
   \<not> (exists fs (joinpath (project_root self) file_path) \<and>
      is_file fs (joinpath (project_root self) file_path)) \<Longrightarrow>
   lit ''Missing file: '' @ file_path \<in> set (errors (check_files_loop fs fl self))"
proof (induction fl arbitrary: self)
  case Nil
  then show ?case by simp
next
  case (Cons a fl)
  show ?case
  proof (cases "a = file_path")
    case True
    with Cons.prems(2)
    have "check_files_loop fs (a # fl) self =
            check_files_loop fs fl (self\<lparr>errors := errors self @ [lit ''Missing file: '' @ a]\<rparr>)"
      by (auto simp: Let_def)
    moreover have "lit ''Missing file: '' @ a \<in>
        set (errors (check_files_loop fs fl (self\<lparr>errors := errors self @ [lit ''Missing file: '' @ a]\<rparr>)))"
      using check_files_loop_keeps [of fs fl "self\<lparr>errors := errors self @ [lit ''Missing file: '' @ a]\<rparr>"]
      by auto
    ultimately show ?thesis using True by simp
  next
    case False
    with Cons.prems(1) have in_fl: "file_path \<in> set fl" by simp
    show ?thesis
      using Cons.IH [OF in_fl, of "self\<lparr>passed := passed self @ [lit ''File exists: '' @ a]\<rparr>"]
            Cons.IH [OF in_fl, of "self\<lparr>errors := errors self @ [lit ''Missing file: '' @ a]\<rparr>"]
            Cons.prems(2)
      by (auto simp: Let_def)
  qed
qed

lemma src_init_path:
  "joinpath root (lit ''src/__init__.py'') = root @ [lit ''src'', lit ''__init__.py'']"
  by (simp add: joinpath_def split_path_def startswith_def lit_def)

lemma ensure_keeps_src_init:
  assumes "ensure_loop root dirs fs = Inr fs1"
  shows "fs1 (root @ [lit ''src'', lit ''__init__.py'']) = fs (root @ [lit ''src'', lit ''__init__.py''])"
proof (rule ccontr)
  assume "fs1 (root @ [lit ''src'', lit ''__init__.py'']) \<noteq> fs (root @ [lit ''src'', lit ''__init__.py''])"
  from ensure_loop_changes [OF assms this] show False
    by (simp add: dirs_def joinpath_def split_path_def startswith_def lit_def)
qed

lemma copy_keeps_src_init:
  assumes "copy_files old_base root FILE_MAPPING (s, f, w) = Inr (s', f', w')"
  shows "files w' (root @ [lit ''src'', lit ''__init__.py'']) = files w (root @ [lit ''src'', lit ''__init__.py''])"
proof (rule ccontr)
  assume "files w' (root @ [lit ''src'', lit ''__init__.py'']) \<noteq> files w (root @ [lit ''src'', lit ''__init__.py''])"
  from copy_files_changes [OF assms this] show False
    by (simp add: FILE_MAPPING_def joinpath_def split_path_def startswith_def name_def lit_def)
qed

lemma headers_keep_src_init:
  assumes "add_headers root file_descriptions w = Inr w'"
  shows "files w' (root @ [lit ''src'', lit ''__init__.py'']) = files w (root @ [lit ''src'', lit ''__init__.py''])"
proof (rule ccontr)
  assume "files w' (root @ [lit ''src'', lit ''__init__.py'']) \<noteq> files w (root @ [lit ''src'', lit ''__init__.py''])"
  from add_headers_changes [OF assms this] show False
    by (simp add: file_descriptions_def joinpath_def split_path_def startswith_def lit_def)
qed

lemma report_keeps_src_init:
  assumes "create_migration_report root s f fs = Inr fs'"
  shows "fs' (root @ [lit ''src'', lit ''__init__.py'']) = fs (root @ [lit ''src'', lit ''__init__.py''])"
proof (rule ccontr)
  assume "fs' (root @ [lit ''src'', lit ''__init__.py'']) \<noteq> fs (root @ [lit ''src'', lit ''__init__.py''])"
  with assms have "root @ [lit ''src'', lit ''__init__.py''] = joinpath root (lit ''MIGRATION_REPORT.md'')"
    unfolding create_migration_report_def by (rule write_text_changes)
  then show False
    by (simp add: joinpath_def split_path_def startswith_def lit_def)
qed

lemma migrate_keeps_src_init:
  assumes "migrate_files old_base root w = Inr w'"
  shows "files w' (root @ [lit ''src'', lit ''__init__.py'']) = files w (root @ [lit ''src'', lit ''__init__.py''])"
proof -
  from migrate_files_stages [OF assms] obtain fs5 s f w6 w7 w9 w10 where
    e: "ensure_directories root (files w) = Inr fs5" and
    c: "copy_files old_base root FILE_MAPPING (0, 0, w6) = Inr (s, f, w7)" and
    w6: "files w6 = fs5" and
    h: "add_headers root file_descriptions w9 = Inr w10" and
    w9: "files w9 = files w7" and
    r: "create_migration_report root s f (files w10) = Inr (files w')"
    by blast
  from e have "ensure_loop root dirs (files w) = Inr fs5"
    by (simp add: ensure_directories_def)
  from ensure_keeps_src_init [OF this] copy_keeps_src_init [OF c] headers_keep_src_init [OF h]
       report_keeps_src_init [OF r] w6 w9
  show ?thesis by simp
qed

lemma ensure_other_markers:
  assumes "ensure_loop root dirs fs = Inr fs1" and "d \<in> set dirs" and "\<not> startswith d (lit ''src/'')"
  shows "fs1 (joinpath root d @ [lit ''__init__.py'']) = fs (joinpath root d @ [lit ''__init__.py''])"
proof (rule ccontr)
  assume "fs1 (joinpath root d @ [lit ''__init__.py'']) \<noteq> fs (joinpath root d @ [lit ''__init__.py''])"
  from ensure_loop_changes [OF assms(1) this] assms(2,3) show False
    by (auto simp: dirs_def joinpath_def split_path_def startswith_def lit_def)
qed

text \<open>
  Claim C9.  A run of \<open>ensure_directories\<close> leaves \<open>src/__init__.py\<close> as it was, makes
  the \<open>__init__.py\<close> of every listed directory under \<open>src/\<close> exist (these are \<open>src/core\<close>,
  \<open>src/models\<close>, \<open>src/strategies\<close> and \<open>src/utils\<close>) and leaves the \<open>__init__.py\<close> of every
  other listed directory as it was.  So when \<open>src/__init__.py\<close> does not exist before a
  migration run, it does not exist after it, and the required-files check of the validator
  on that root records the error \<open>Missing file: src/__init__.py\<close>.
\<close>

theorem provisioning_omits_src_init:
  "(ensure_directories root fs = Inr fs1 \<longrightarrow>
      fs1 (joinpath root (lit ''src/__init__.py'')) = fs (joinpath root (lit ''src/__init__.py'')) \<and>
      (\<forall>d\<in>set dirs.
         if startswith d (lit ''src/'')
         then exists fs1 (joinpath (joinpath root d) (lit ''__init__.py''))
         else fs1 (joinpath (joinpath root d) (lit ''__init__.py'')) =
              fs (joinpath (joinpath root d) (lit ''__init__.py'')))) \<and>
   filter (\<lambda>d. startswith d (lit ''src/'')) dirs =
     [lit ''src/core'', lit ''src/models'', lit ''src/strategies'', lit ''src/utils''] \<and>
   (\<not> exists (files w) (joinpath root (lit ''src/__init__.py'')) \<and>
    migrate_files old_base root w = Inr w' \<and> project_root self = root \<longrightarrow>
      \<not> exists (files w') (joinpath root (lit ''src/__init__.py'')) \<and>
      lit ''Missing file: src/__init__.py'' \<in>
        set (errors (fst (check_required_files (files w') self))))"
proof (intro conjI impI)
  assume run: "ensure_directories root fs = Inr fs1"
  then have loop: "ensure_loop root dirs fs = Inr fs1"
    by (simp add: ensure_directories_def)
  show "fs1 (joinpath root (lit ''src/__init__.py'')) = fs (joinpath root (lit ''src/__init__.py''))"
    using ensure_keeps_src_init [OF loop] by (simp add: src_init_path)
  show "\<forall>d\<in>set dirs.
         if startswith d (lit ''src/'')
         then exists fs1 (joinpath (joinpath root d) (lit ''__init__.py''))
         else fs1 (joinpath (joinpath root d) (lit ''__init__.py'')) =
              fs (joinpath (joinpath root d) (lit ''__init__.py''))"
    using ensure_loop_done [OF loop] ensure_other_markers [OF loop]
    by (simp add: joinpath_init)
next
  show "filter (\<lambda>d. startswith d (lit ''src/'')) dirs =
     [lit ''src/core'', lit ''src/models'', lit ''src/strategies'', lit ''src/utils'']"
    by (simp add: dirs_def startswith_def lit_def)
next
  assume a: "\<not> exists (files w) (joinpath root (lit ''src/__init__.py'')) \<and>
    migrate_files old_base root w = Inr w' \<and> project_root self = root"
  then have "files w' (root @ [lit ''src'', lit ''__init__.py'']) =
             files w (root @ [lit ''src'', lit ''__init__.py''])"
    using migrate_keeps_src_init by blast
  with a show ne: "\<not> exists (files w') (joinpath root (lit ''src/__init__.py''))"
    by (simp add: src_init_path not_exists_iff)
  have "lit ''src/__init__.py'' \<in> set required_files"
    by (simp add: required_files_def)
  from check_files_loop_missing [OF this, of "files w'" self] ne a
  have "lit ''Missing file: '' @ lit ''src/__init__.py'' \<in>
          set (errors (check_files_loop (files w') required_files self))"
    by simp
  moreover have "lit ''Missing file: '' @ lit ''src/__init__.py'' = lit ''Missing file: src/__init__.py''"
    by (simp add: lit_def)
  ultimately show "lit ''Missing file: src/__init__.py'' \<in>
        set (errors (fst (check_required_files (files w') self)))"
    by (simp add: check_required_files_def)
qed

lemma migrate_empty_returns:
  "\<exists>w'. migrate_files [lit ''proj''] [lit ''proj''] \<lparr>files = Map.empty, stdout = []\<rparr> = Inr w'"
  by (simp add: migrate_files_def FILE_MAPPING_def file_descriptions_def add_header_if_exists_def
      copy_file_def create_migration_report_def print_def Let_def
      ensure_directories_def dirs_def ensure_directory_def joinpath_def split_path_def startswith_def
      mkdir_parents_def exists_def write_text_def write_bytes_def parent_def lit_def)

lemma ensure_empty_returns:
  "\<exists>fs1. ensure_directories [lit ''proj''] Map.empty = Inr fs1"
  by (simp add: ensure_directories_def dirs_def ensure_directory_def joinpath_def split_path_def
      startswith_def mkdir_parents_def exists_def write_text_def write_bytes_def parent_def lit_def)

text \<open>C9 on an empty file system, provisioned and migrated at the root \<open>/proj\<close>.\<close>

theorem provisioning_omits_src_init_witness:
  "\<exists>fs1 w'.
     ensure_directories [lit ''proj''] Map.empty = Inr fs1 \<and>
     fs1 [lit ''proj'', lit ''src'', lit ''__init__.py''] = None \<and>
     exists fs1 [lit ''proj'', lit ''src'', lit ''core'', lit ''__init__.py''] \<and>
     migrate_files [lit ''proj''] [lit ''proj''] \<lparr>files = Map.empty, stdout = []\<rparr> = Inr w' \<and>
     lit ''Missing file: src/__init__.py'' \<in>
       set (errors (fst (check_required_files (files w') (ProjectValidator [lit ''proj'']))))"
proof -
  from ensure_empty_returns obtain fs1 where
    e: "ensure_directories [lit ''proj''] Map.empty = Inr fs1" ..
  from migrate_empty_returns obtain w' where
    m: "migrate_files [lit ''proj''] [lit ''proj''] \<lparr>files = Map.empty, stdout = []\<rparr> = Inr w'" ..
  have p1: "joinpath [lit ''proj''] (lit ''src/__init__.py'') = [lit ''proj'', lit ''src'', lit ''__init__.py'']"
    and p2: "joinpath (joinpath [lit ''proj''] (lit ''src/core'')) (lit ''__init__.py'') =
         [lit ''proj'', lit ''src'', lit ''core'', lit ''__init__.py'']"
    and d: "lit ''src/core'' \<in> set dirs" "startswith (lit ''src/core'') (lit ''src/'')"
    by (simp_all add: joinpath_def split_path_def startswith_def dirs_def lit_def)
  have ne: "\<not> exists (files \<lparr>files = Map.empty, stdout = []\<rparr>) (joinpath [lit ''proj''] (lit ''src/__init__.py''))"
    by (simp add: p1 exists_def)
  note t = provisioning_omits_src_init [of "[lit ''proj'']" Map.empty fs1
      "\<lparr>files = Map.empty, stdout = []\<rparr>" "[lit ''proj'']" w' "ProjectValidator [lit ''proj'']"]
  from t e have "fs1 [lit ''proj'', lit ''src'', lit ''__init__.py''] = None"
    by (simp add: p1)
  moreover from t e d have "exists fs1 [lit ''proj'', lit ''src'', lit ''core'', lit ''__init__.py'']"
    using p2 by (metis (no_types, lifting))
  moreover from t ne m have "lit ''Missing file: src/__init__.py'' \<in>
       set (errors (fst (check_required_files (files w') (ProjectValidator [lit ''proj'']))))"
    by (simp add: ProjectValidator_def)
  ultimately show ?thesis using e m by blast
qed

subsection \<open>Two entries with one destination\<close>

text \<open>
  Claim C1 fails on the code.  No destination of \<open>FILE_MAPPING\<close> contains the text
  \<open>Append\<close>, so \<open>migrate_files\<close> calls \<open>copy_file\<close> without the append flag for every
  entry, also for the two entries the table marks as appended.  With
  \<open>determineSyncN.py\<close> holding X and \<open>determineSyncTwo.py\<close> holding Y (and no other
  source present), the run ends with \<open>src/core/sync_detection.py\<close> holding the header
  followed by Y alone: X is overwritten, and no separator is written.
\<close>

theorem migrate_files_overwrites_append_entry:
  "filter (\<lambda>entry. str_contains (fst (snd entry)) (lit ''Append'')) FILE_MAPPING = [] \<and>
   (\<exists>w'. migrate_files [lit ''old''] [lit ''new'']
            \<lparr>files = [[lit ''old''] \<mapsto> Dir, [lit ''old'', lit ''N5ForShare''] \<mapsto> Dir,
                      [lit ''old'', lit ''N5ForShare'', lit ''determineSyncN.py''] \<mapsto> File (encode (lit ''X'')),
                      [lit ''old'', lit ''N5ForShare'', lit ''determineSyncTwo.py''] \<mapsto> File (encode (lit ''Y''))],
             stdout = []\<rparr> = Inr w' \<and>
          files w' [lit ''new'', lit ''src'', lit ''core'', lit ''sync_detection.py''] =
            Some (File (encode (header (lit ''Synchronization detection for oscillator systems'') @ lit ''Y''))) \<and>
          files w' [lit ''new'', lit ''src'', lit ''core'', lit ''sync_detection.py''] \<noteq>
            Some (File (encode (lit ''X'' @
                        separator [lit ''old'', lit ''N5ForShare'', lit ''determineSyncTwo.py''] @
                        lit ''Y''))))"
  by (simp add: migrate_files_def FILE_MAPPING_def file_descriptions_def add_header_if_exists_def
      add_file_header_def copy_file_def copy2_def read_text_def read_bytes_def append_text_def encode_def
      create_migration_report_def print_def is_dir_def strip_def is_space_def
      triple_double_def triple_single_def name_def header_def nl_def separator_def rule60_def Let_def
      ensure_directories_def dirs_def ensure_directory_def joinpath_def split_path_def startswith_def
      mkdir_parents_def exists_def write_text_def write_bytes_def parent_def lit_def)

subsection \<open>A plan with a missing source\<close>

lemma prefix_butlast_strict: "p \<noteq> [] \<Longrightarrow> prefix q (butlast p) \<Longrightarrow> strict_prefix q p"
  using prefix_butlast_self [of p] prefixeq_butlast [of p]
  by (auto simp: strict_prefix_def intro: prefix_order.trans)

lemma copy_file_missing:
  "\<not> exists (files w) src \<Longrightarrow>
   copy_file src dst a w =
     Inr (False, print (lit ''  WARNING: Source file not found: '' @ str_path src) w)"
  by (simp add: copy_file_def)

lemma copy_file_transfers:
  assumes src: "lookup (files w) src = Some (File t)"
    and rd: "a \<longrightarrow> (\<exists>c. decode t = Inr c)"
    and nd: "\<not> is_dir (files w) dst"
    and anc: "\<forall>q. strict_prefix q dst \<longrightarrow> \<not> is_file (files w) q"
    and sep: "\<not> prefix src dst"
  shows "\<exists>fs1. mkdir_parents (files w) (parent dst) = Inr fs1 \<and>
           copy_file src dst a w =
             Inr (True,
                  print (lit ''  '' @ [10003] @ lit '' Copied: '' @ str_path src @
                         lit '' -> '' @ str_path dst)
                    (w\<lparr>files := fs1(dst \<mapsto> File
                         (case files w dst of
                            Some (File old) \<Rightarrow> if a then (case decode t of
        Inr c \<Rightarrow> old @ encode (separator src @ universal_newlines c)
      | Inl x \<Rightarrow> t) else t
                          | _ \<Rightarrow> t))\<rparr>))"
proof -
  from nd have d: "dst \<noteq> []" by (auto simp: is_dir_def)
  from src have s: "src \<noteq> []" "files w src = Some (File t)"
    by (auto simp: lookup_def split: if_splits)
  have "\<forall>q. prefix q (parent dst) \<longrightarrow> \<not> is_file (files w) q"
    using anc prefix_butlast_strict [OF d] by (auto simp: parent_def)
  from mkdir_parents_succeeds [OF this] obtain fs1 where
    mk: "mkdir_parents (files w) (parent dst) = Inr fs1" ..
  have "\<not> prefix src (parent dst)"
    using sep prefix_parent by blast
  from mkdir_parents_frame [OF mk this] s have s1: "lookup fs1 src = Some (File t)"
    by (simp add: lookup_def)
  have "\<not> prefix dst (parent dst)"
    using prefix_butlast_self [OF d] by (simp add: parent_def)
  from mkdir_parents_frame [OF mk this] have d1: "fs1 dst = files w dst" .
  have pd: "lookup fs1 (parent dst) = Some Dir"
    using mkdir_parents_effect(2) [OF mk] by (simp add: is_dir_def)
  have ne: "src \<noteq> dst" using sep by auto
  have ex: "exists (files w) src" using src by (simp add: exists_def)
  have "copy_file src dst a w =
             Inr (True,
                  print (lit ''  '' @ [10003] @ lit '' Copied: '' @ str_path src @
                         lit '' -> '' @ str_path dst)
                    (w\<lparr>files := fs1(dst \<mapsto> File
                         (case files w dst of
                            Some (File old) \<Rightarrow> if a then (case decode t of
        Inr c \<Rightarrow> old @ encode (separator src @ universal_newlines c)
      | Inl x \<Rightarrow> t) else t
                          | _ \<Rightarrow> t))\<rparr>))"
  proof (cases "files w dst")
    case None
    with d d1 have "lookup fs1 dst = None" by (simp add: lookup_def)
    then show ?thesis
      using ex mk s1 pd ne None
      by (simp add: copy_file_def exists_def copy2_def is_dir_def read_bytes_def write_bytes_def)
  next
    case (Some n)
    with nd d obtain old where old: "files w dst = Some (File old)"
      by (cases n) (auto simp: is_dir_def lookup_def)
    with d d1 have "lookup fs1 dst = Some (File old)" by (simp add: lookup_def)
    then show ?thesis
      using ex mk s1 ne old rd
      by (auto simp: copy_file_def exists_def copy2_def is_dir_def read_bytes_def write_bytes_def
          read_text_File append_text_def)
  qed
  with mk show ?thesis by blast
qed

lemma is_file_cong: "fs q = fs' q \<Longrightarrow> is_file fs q = is_file fs' q"
  by (simp add: is_file_def lookup_def)

lemma not_is_file_Dir: "fs q = Some Dir \<Longrightarrow> \<not> is_file fs q"
  by (simp add: is_file_def lookup_def)

lemma copy_files_entry:
  "copy_files old_base new_base (e # rest) (s, f, w) =
     (case copy_file (entry_src old_base e) (entry_dst new_base e) (entry_append e) w of
        Inl x \<Rightarrow> Inl x
      | Inr (ok, w') \<Rightarrow>
          if ok then copy_files old_base new_base rest (s + 1, f, w')
          else copy_files old_base new_base rest (s, f + 1, w'))"
  by (cases e) (simp add: entry_src_def entry_dst_def entry_append_def Let_def)

lemma copy_files_keeps_destination:
  assumes run: "copy_files old_base new_base rest (s, f, w) = Inr (s', f', w')"
    and other: "\<forall>e'\<in>set rest. entry_dst new_base e' \<noteq> d"
    and nest: "\<forall>e'\<in>set rest. \<not> strict_prefix d (entry_dst new_base e') \<and>
                               \<not> strict_prefix (entry_dst new_base e') d"
  shows "files w' d = files w d"
proof (rule ccontr)
  assume "files w' d \<noteq> files w d"
  from copy_files_changes [OF run this] obtain e' where e': "e' \<in> set rest" and
    c: "prefix d (entry_dst new_base e') \<or>
        d = entry_dst new_base e' @ [name (joinpath old_base (fst e'))]"
    by (auto simp: entry_dst_def)
  from c show False
  proof
    assume "prefix d (entry_dst new_base e')"
    with other nest e' show False by (auto simp: strict_prefix_def)
  next
    assume "d = entry_dst new_base e' @ [name (joinpath old_base (fst e'))]"
    then have "strict_prefix (entry_dst new_base e') d" by (simp add: strict_prefix_def)
    with nest e' show False by blast
  qed
qed

lemma copy_files_separated:
  fixes fs0 :: fs
  assumes srcs: "\<forall>e\<in>set plan. \<not> exists fs0 (entry_src old_base e) \<or>
                  is_file fs0 (entry_src old_base e) \<and>
                  (entry_append e \<longrightarrow> (\<exists>c. read_text fs0 (entry_src old_base e) = Inr c))"
    and sep: "\<forall>e\<in>set plan. \<forall>e'\<in>set plan. \<not> prefix (entry_src old_base e) (entry_dst new_base e')"
    and nest: "\<forall>e\<in>set plan. \<forall>e'\<in>set plan.
                 \<not> strict_prefix (entry_dst new_base e) (entry_dst new_base e')"
  shows "set rest \<subseteq> set plan \<Longrightarrow>
         (\<forall>e\<in>set plan. files w (entry_src old_base e) = fs0 (entry_src old_base e)) \<Longrightarrow>
         (\<forall>e\<in>set plan. \<not> is_dir (files w) (entry_dst new_base e)) \<Longrightarrow>
         (\<forall>e\<in>set plan. \<forall>q. strict_prefix q (entry_dst new_base e) \<longrightarrow> \<not> is_file (files w) q) \<Longrightarrow>
         \<exists>w'. copy_files old_base new_base rest (s, f, w) =
                 Inr (s + length (filter (\<lambda>e. exists fs0 (entry_src old_base e)) rest),
                      f + length (filter (\<lambda>e. \<not> exists fs0 (entry_src old_base e)) rest), w') \<and>
           (\<forall>e\<in>set rest. \<forall>t.
               fs0 (entry_src old_base e) = Some (File t) \<and>
               length (filter (\<lambda>e'. entry_dst new_base e' = entry_dst new_base e) rest) = 1 \<longrightarrow>
               files w' (entry_dst new_base e) =
                 Some (File (case files w (entry_dst new_base e) of
                               Some (File old) \<Rightarrow>
                                 if entry_append e
                                 then (case decode t of
        Inr c \<Rightarrow> old @ encode (separator (entry_src old_base e) @ universal_newlines c)
      | Inl x \<Rightarrow> t)
                                 else t
                             | _ \<Rightarrow> t)))"
proof (induction rest arbitrary: s f w)
  case Nil
  then show ?case by simp
next
  case (Cons e rest)
  let ?src = "entry_src old_base" and ?dst = "entry_dst new_base"
  from Cons.prems(1) have e: "e \<in> set plan" and sub: "set rest \<subseteq> set plan" by auto
  note I1 = Cons.prems(2) and I2 = Cons.prems(3) and I3 = Cons.prems(4)
  show ?case
  proof (cases "exists fs0 (?src e)")
    case False
    let ?w1 = "print (lit ''  WARNING: Source file not found: '' @ str_path (?src e)) w"
    from False I1 e have "\<not> exists (files w) (?src e)"
      by (auto simp: exists_def lookup_def split: if_splits)
    then have step: "copy_file (?src e) (?dst e) (entry_append e) w = Inr (False, ?w1)"
      by (rule copy_file_missing)
    from Cons.IH [OF sub, of ?w1 s "f + 1"] I1 I2 I3 obtain w' where
      run: "copy_files old_base new_base rest (s, f + 1, ?w1) =
              Inr (s + length (filter (\<lambda>e. exists fs0 (?src e)) rest),
                   f + 1 + length (filter (\<lambda>e. \<not> exists fs0 (?src e)) rest), w')" and
      content: "\<forall>e'\<in>set rest. \<forall>t.
               fs0 (?src e') = Some (File t) \<and>
               length (filter (\<lambda>e''. ?dst e'' = ?dst e') rest) = 1 \<longrightarrow>
               files w' (?dst e') =
                 Some (File (case files w (?dst e') of
                               Some (File old) \<Rightarrow>
                                 if entry_append e' then (case decode t of
        Inr c \<Rightarrow> old @ encode (separator (?src e') @ universal_newlines c)
      | Inl x \<Rightarrow> t) else t
                             | _ \<Rightarrow> t))"
      by auto
    have "copy_files old_base new_base (e # rest) (s, f, w) =
            Inr (s + length (filter (\<lambda>e. exists fs0 (?src e)) (e # rest)),
                 f + length (filter (\<lambda>e. \<not> exists fs0 (?src e)) (e # rest)), w')"
      using step run False by (simp add: copy_files_entry)
    moreover have "\<forall>e'\<in>set (e # rest). \<forall>t.
               fs0 (?src e') = Some (File t) \<and>
               length (filter (\<lambda>e''. ?dst e'' = ?dst e') (e # rest)) = 1 \<longrightarrow>
               files w' (?dst e') =
                 Some (File (case files w (?dst e') of
                               Some (File old) \<Rightarrow>
                                 if entry_append e' then (case decode t of
        Inr c \<Rightarrow> old @ encode (separator (?src e') @ universal_newlines c)
      | Inl x \<Rightarrow> t) else t
                             | _ \<Rightarrow> t))"
    proof (intro ballI allI impI)
      fix e' t
      assume e': "e' \<in> set (e # rest)" and
        h: "fs0 (?src e') = Some (File t) \<and>
            length (filter (\<lambda>e''. ?dst e'' = ?dst e') (e # rest)) = 1"
      from h have "exists fs0 (?src e')" by (simp add: exists_def lookup_def)
      with False e' have in_rest: "e' \<in> set rest" by auto
      then have "filter (\<lambda>e''. ?dst e'' = ?dst e') rest \<noteq> []"
        by (auto simp: filter_empty_conv)
      with h have "?dst e \<noteq> ?dst e'" and
        "length (filter (\<lambda>e''. ?dst e'' = ?dst e') rest) = 1"
        by (auto split: if_splits)
      with content in_rest h show "files w' (?dst e') =
                 Some (File (case files w (?dst e') of
                               Some (File old) \<Rightarrow>
                                 if entry_append e' then (case decode t of
        Inr c \<Rightarrow> old @ encode (separator (?src e') @ universal_newlines c)
      | Inl x \<Rightarrow> t) else t
                             | _ \<Rightarrow> t))"
        by blast
    qed
    ultimately show ?thesis by blast
  next
    case True
    with srcs e have "is_file fs0 (?src e)" and
      rd0: "entry_append e \<longrightarrow> (\<exists>c. read_text fs0 (?src e) = Inr c)"
      by blast+
    then obtain t0 where t0: "lookup fs0 (?src e) = Some (File t0)"
      by (auto simp: is_file_def split: option.splits node.splits)
    from rd0 have rd: "entry_append e \<longrightarrow> (\<exists>c. decode t0 = Inr c)"
      by (auto simp: read_text_File [OF t0] split: sum.splits)
    from t0 have src_ne: "?src e \<noteq> []" and fs0_src: "fs0 (?src e) = Some (File t0)"
      by (auto simp: lookup_def split: if_splits)
    with I1 e have l: "lookup (files w) (?src e) = Some (File t0)"
      by (simp add: lookup_def)
    have nd: "\<not> is_dir (files w) (?dst e)" using I2 e by blast
    then have dst_ne: "?dst e \<noteq> []" by (auto simp: is_dir_def)
    have anc: "\<forall>q. strict_prefix q (?dst e) \<longrightarrow> \<not> is_file (files w) q" using I3 e by blast
    have sp: "\<not> prefix (?src e) (?dst e)" using sep e by blast
    let ?c = "case files w (?dst e) of
                Some (File old) \<Rightarrow> if entry_append e then (case decode t0 of
        Inr c \<Rightarrow> old @ encode (separator (?src e) @ universal_newlines c)
      | Inl x \<Rightarrow> t0) else t0
              | _ \<Rightarrow> t0"
    from copy_file_transfers [OF l rd nd anc sp] obtain fs1 where
      mk: "mkdir_parents (files w) (parent (?dst e)) = Inr fs1" and
      step: "copy_file (?src e) (?dst e) (entry_append e) w =
               Inr (True, print (lit ''  '' @ [10003] @ lit '' Copied: '' @ str_path (?src e) @
                                 lit '' -> '' @ str_path (?dst e))
                            (w\<lparr>files := fs1(?dst e \<mapsto> File ?c)\<rparr>))"
      by blast
    let ?w1 = "print (lit ''  '' @ [10003] @ lit '' Copied: '' @ str_path (?src e) @
                                 lit '' -> '' @ str_path (?dst e))
                            (w\<lparr>files := fs1(?dst e \<mapsto> File ?c)\<rparr>)"
    have fw1: "files ?w1 = fs1(?dst e \<mapsto> File ?c)" by simp
    have mkch: "\<And>q. fs1 q \<noteq> files w q \<Longrightarrow> strict_prefix q (?dst e) \<and> fs1 q = Some Dir"
      using mkdir_parents_effect(3) [OF mk] prefix_butlast_strict [OF dst_ne]
      by (auto simp: parent_def)
    have J1: "\<forall>e'\<in>set plan. files ?w1 (?src e') = fs0 (?src e')"
    proof
      fix e' assume e': "e' \<in> set plan"
      with sep e have np: "\<not> prefix (?src e') (?dst e)" by blast
      then have "?src e' \<noteq> ?dst e" by auto
      moreover have "fs1 (?src e') = files w (?src e')"
        using mkch [of "?src e'"] np by (auto simp: strict_prefix_def)
      ultimately show "files ?w1 (?src e') = fs0 (?src e')"
        using I1 e' by (simp add: fw1)
    qed
    have keep_dst: "\<And>e'. e' \<in> set plan \<Longrightarrow> ?dst e' \<noteq> ?dst e \<Longrightarrow>
                      files ?w1 (?dst e') = files w (?dst e')"
    proof -
      fix e' assume e': "e' \<in> set plan" and ne: "?dst e' \<noteq> ?dst e"
      have "fs1 (?dst e') = files w (?dst e')"
        using mkch [of "?dst e'"] nest e e' by blast
      with ne show "files ?w1 (?dst e') = files w (?dst e')" by (simp add: fw1)
    qed
    have J2: "\<forall>e'\<in>set plan. \<not> is_dir (files ?w1) (?dst e')"
    proof
      fix e' assume e': "e' \<in> set plan"
      show "\<not> is_dir (files ?w1) (?dst e')"
      proof (cases "?dst e' = ?dst e")
        case True
        with dst_ne show ?thesis by (simp add: fw1 is_dir_def lookup_def)
      next
        case False
        have "lookup (files ?w1) (?dst e') = lookup (files w) (?dst e')"
          by (simp only: lookup_def keep_dst [OF e' False])
        moreover have "\<not> is_dir (files w) (?dst e')" using I2 e' by blast
        ultimately show ?thesis by (simp only: is_dir_def not_False_eq_True)
      qed
    qed
    have J3: "\<forall>e'\<in>set plan. \<forall>q. strict_prefix q (?dst e') \<longrightarrow> \<not> is_file (files ?w1) q"
    proof (intro ballI allI impI)
      fix e' q assume e': "e' \<in> set plan" and q: "strict_prefix q (?dst e')"
      with nest e have qne: "q \<noteq> ?dst e" by blast
      have eq1: "files ?w1 q = fs1 q" using qne by (simp add: fw1)
      show "\<not> is_file (files ?w1) q"
      proof (cases "fs1 q = files w q")
        case True
        with eq1 have "files ?w1 q = files w q" by simp
        then have "is_file (files ?w1) q = is_file (files w) q" by (rule is_file_cong)
        with I3 e' q show ?thesis by blast
      next
        case False
        from mkch [OF False] eq1 have "files ?w1 q = Some Dir" by simp
        then show ?thesis by (rule not_is_file_Dir)
      qed
    qed
    from Cons.IH [OF sub J1 J2 J3, of "s + 1" f] obtain w' where
      run: "copy_files old_base new_base rest (s + 1, f, ?w1) =
              Inr (s + 1 + length (filter (\<lambda>e. exists fs0 (?src e)) rest),
                   f + length (filter (\<lambda>e. \<not> exists fs0 (?src e)) rest), w')" and
      content: "\<forall>e'\<in>set rest. \<forall>t.
               fs0 (?src e') = Some (File t) \<and>
               length (filter (\<lambda>e''. ?dst e'' = ?dst e') rest) = 1 \<longrightarrow>
               files w' (?dst e') =
                 Some (File (case files ?w1 (?dst e') of
                               Some (File old) \<Rightarrow>
                                 if entry_append e' then (case decode t of
        Inr c \<Rightarrow> old @ encode (separator (?src e') @ universal_newlines c)
      | Inl x \<Rightarrow> t) else t
                             | _ \<Rightarrow> t))"
      by blast
    have "copy_files old_base new_base (e # rest) (s, f, w) =
            Inr (s + length (filter (\<lambda>e. exists fs0 (?src e)) (e # rest)),
                 f + length (filter (\<lambda>e. \<not> exists fs0 (?src e)) (e # rest)), w')"
      using step run True by (simp add: copy_files_entry)
    moreover have "\<forall>e'\<in>set (e # rest). \<forall>t.
               fs0 (?src e') = Some (File t) \<and>
               length (filter (\<lambda>e''. ?dst e'' = ?dst e') (e # rest)) = 1 \<longrightarrow>
               files w' (?dst e') =
                 Some (File (case files w (?dst e') of
                               Some (File old) \<Rightarrow>
                                 if entry_append e' then (case decode t of
        Inr c \<Rightarrow> old @ encode (separator (?src e') @ universal_newlines c)
      | Inl x \<Rightarrow> t) else t
                             | _ \<Rightarrow> t))"
    proof (intro ballI allI impI)
      fix e' t
      assume e': "e' \<in> set (e # rest)" and
        h: "fs0 (?src e') = Some (File t) \<and>
            length (filter (\<lambda>e''. ?dst e'' = ?dst e') (e # rest)) = 1"
      from e' sub e have e'p: "e' \<in> set plan" by auto
      show "files w' (?dst e') =
                 Some (File (case files w (?dst e') of
                               Some (File old) \<Rightarrow>
                                 if entry_append e' then (case decode t of
        Inr c \<Rightarrow> old @ encode (separator (?src e') @ universal_newlines c)
      | Inl x \<Rightarrow> t) else t
                             | _ \<Rightarrow> t))"
      proof (cases "?dst e' = ?dst e")
        case same: True
        with h have none: "filter (\<lambda>e''. ?dst e'' = ?dst e) rest = []" by simp
        then have other: "\<forall>e''\<in>set rest. ?dst e'' \<noteq> ?dst e"
          by (auto simp: filter_empty_conv)
        with same e' have "e' = e" by auto
        with h fs0_src have tt: "t = t0" by simp
        have "\<forall>e''\<in>set rest. \<not> strict_prefix (?dst e) (?dst e'') \<and>
                               \<not> strict_prefix (?dst e'') (?dst e)"
          using nest e sub by blast
        from copy_files_keeps_destination [OF run other this]
        have r: "files w' (?dst e) = Some (File ?c)" by (simp add: fw1)
        show ?thesis unfolding \<open>e' = e\<close> tt by (rule r)
      next
        case diff: False
        with e' have in_rest: "e' \<in> set rest" by auto
        from diff h have "length (filter (\<lambda>e''. ?dst e'' = ?dst e') rest) = 1"
          by (auto split: if_splits)
        with content in_rest h have "files w' (?dst e') =
                 Some (File (case files ?w1 (?dst e') of
                               Some (File old) \<Rightarrow>
                                 if entry_append e' then (case decode t of
        Inr c \<Rightarrow> old @ encode (separator (?src e') @ universal_newlines c)
      | Inl x \<Rightarrow> t) else t
                             | _ \<Rightarrow> t))"
          by blast
        with keep_dst [OF e'p diff] show ?thesis by simp
      qed
    qed
    ultimately show ?thesis by blast
  qed
qed

text \<open>
  Claim C4 as stated fails: a missing source alone does not raise, but the loop of
  \<open>migrate_files\<close> catches nothing, and another entry of the plan can raise and end the
  run.  Here the plan has two entries; the source of the first is missing and the source
  of the second is a regular file, but \<open>/new/x\<close>, the directory of both destinations, is a
  regular file: the first entry fails with the warning, the second raises
  \<open>FileExistsError\<close> when its directory is made, and no counts are reported.
\<close>

theorem copy_files_missing_source_then_raise:
  "length (filter (\<lambda>e. \<not> exists
       [[lit ''old''] \<mapsto> Dir, [lit ''old'', lit ''b.py''] \<mapsto> File (encode (lit ''B'')),
        [lit ''new''] \<mapsto> Dir, [lit ''new'', lit ''x''] \<mapsto> File []]
       (entry_src [lit ''old''] e))
     [(lit ''a.py'', lit ''x/a.py'', True), (lit ''b.py'', lit ''x/b.py'', True)]) = 1 \<and>
   copy_files [lit ''old''] [lit ''new'']
     [(lit ''a.py'', lit ''x/a.py'', True), (lit ''b.py'', lit ''x/b.py'', True)]
     (0, 0, \<lparr>files = [[lit ''old''] \<mapsto> Dir,
                       [lit ''old'', lit ''b.py''] \<mapsto> File (encode (lit ''B'')),
                       [lit ''new''] \<mapsto> Dir, [lit ''new'', lit ''x''] \<mapsto> File []],
             stdout = []\<rparr>) =
   Inl (FileExistsError [lit ''new'', lit ''x''])"
  by (simp add: copy_file_def entry_src_def joinpath_def split_path_def startswith_def
      mkdir_parents_def exists_def parent_def print_def lit_def)

text \<open>
  Claim C4, amended.  A transfer whose source does not exist does not raise: it prints the
  warning, returns \<open>False\<close> and leaves the file system as it was.  Take a plan in which
  exactly one entry has a missing source and every other entry can be transferred: its
  source is a regular file (which can be read as text, when the entry is transferred in
  append mode), no source is a destination or an ancestor of one, no destination is an
  ancestor of another, no destination is a directory and no ancestor of a destination is
  a regular file.  Then the copy loop, started with both counters at 0, returns with
  \<open>length plan - 1\<close> successes and 1 failure, and every entry with an existing source
  whose destination no other entry shares is transferred: its destination holds the data
  of its source, or, when the entry is transferred in append mode and the destination was
  a regular file, its earlier data, the separator and the text of the source.
\<close>

theorem copy_files_one_missing_source:
  assumes srcs: "\<forall>e\<in>set plan. \<not> exists (files w) (entry_src old_base e) \<or>
                   is_file (files w) (entry_src old_base e) \<and>
                   (entry_append e \<longrightarrow> (\<exists>c. read_text (files w) (entry_src old_base e) = Inr c))"
    and one: "length (filter (\<lambda>e. \<not> exists (files w) (entry_src old_base e)) plan) = 1"
    and sep: "\<forall>e\<in>set plan. \<forall>e'\<in>set plan.
                \<not> prefix (entry_src old_base e) (entry_dst new_base e')"
    and nest: "\<forall>e\<in>set plan. \<forall>e'\<in>set plan.
                 \<not> strict_prefix (entry_dst new_base e) (entry_dst new_base e')"
    and nd: "\<forall>e\<in>set plan. \<not> is_dir (files w) (entry_dst new_base e)"
    and anc: "\<forall>e\<in>set plan. \<forall>q\<in>set (prefixes (entry_dst new_base e)).
                q \<noteq> entry_dst new_base e \<longrightarrow> \<not> is_file (files w) q"
  shows "(\<forall>src dst a w0. \<not> exists (files w0) src \<longrightarrow>
            copy_file src dst a w0 =
              Inr (False, print (lit ''  WARNING: Source file not found: '' @ str_path src) w0)) \<and>
         (\<exists>w'. copy_files old_base new_base plan (0, 0, w) = Inr (length plan - 1, 1, w') \<and>
            (\<forall>e\<in>set plan. \<forall>d.
               files w (entry_src old_base e) = Some (File d) \<and>
               length (filter (\<lambda>e'. entry_dst new_base e' = entry_dst new_base e) plan) = 1 \<longrightarrow>
               files w' (entry_dst new_base e) =
                 Some (File (case files w (entry_dst new_base e) of
                               Some (File old) \<Rightarrow>
                                 if entry_append e
                                 then (case decode d of
                                         Inr c \<Rightarrow> old @ encode (separator (entry_src old_base e) @
                                                                 universal_newlines c)
                                       | Inl x \<Rightarrow> d)
                                 else d
                             | _ \<Rightarrow> d))))"
proof
  show "\<forall>src dst a w0. \<not> exists (files w0) src \<longrightarrow>
            copy_file src dst a w0 =
              Inr (False, print (lit ''  WARNING: Source file not found: '' @ str_path src) w0)"
    by (simp add: copy_file_missing)
next
  have anc': "\<forall>e\<in>set plan. \<forall>q. strict_prefix q (entry_dst new_base e) \<longrightarrow> \<not> is_file (files w) q"
    using anc by (auto simp: strict_prefix_def)
  have I1: "\<forall>e\<in>set plan. files w (entry_src old_base e) = files w (entry_src old_base e)"
    by simp
  from copy_files_separated [OF srcs sep nest subset_refl I1 nd anc', of 0 0] obtain w' where
    run: "copy_files old_base new_base plan (0, 0, w) =
            Inr (0 + length (filter (\<lambda>e. exists (files w) (entry_src old_base e)) plan),
                 0 + length (filter (\<lambda>e. \<not> exists (files w) (entry_src old_base e)) plan), w')" and
    content: "\<forall>e\<in>set plan. \<forall>d.
               files w (entry_src old_base e) = Some (File d) \<and>
               length (filter (\<lambda>e'. entry_dst new_base e' = entry_dst new_base e) plan) = 1 \<longrightarrow>
               files w' (entry_dst new_base e) =
                 Some (File (case files w (entry_dst new_base e) of
                               Some (File old) \<Rightarrow>
                                 if entry_append e
                                 then (case decode d of
                                         Inr c \<Rightarrow> old @ encode (separator (entry_src old_base e) @
                                                                 universal_newlines c)
                                       | Inl x \<Rightarrow> d)
                                 else d
                             | _ \<Rightarrow> d))"
    by blast
  have "length (filter (\<lambda>e. exists (files w) (entry_src old_base e)) plan) +
        length (filter (\<lambda>e. \<not> exists (files w) (entry_src old_base e)) plan) = length plan"
    by (rule sum_length_filter_compl)
  with one have "length (filter (\<lambda>e. exists (files w) (entry_src old_base e)) plan) = length plan - 1"
    by simp
  with run one have "copy_files old_base new_base plan (0, 0, w) = Inr (length plan - 1, 1, w')"
    by simp
  with content show "\<exists>w'. copy_files old_base new_base plan (0, 0, w) = Inr (length plan - 1, 1, w') \<and>
            (\<forall>e\<in>set plan. \<forall>d.
               files w (entry_src old_base e) = Some (File d) \<and>
               length (filter (\<lambda>e'. entry_dst new_base e' = entry_dst new_base e) plan) = 1 \<longrightarrow>
               files w' (entry_dst new_base e) =
                 Some (File (case files w (entry_dst new_base e) of
                               Some (File old) \<Rightarrow>
                                 if entry_append e
                                 then (case decode d of
                                         Inr c \<Rightarrow> old @ encode (separator (entry_src old_base e) @
                                                                 universal_newlines c)
                                       | Inl x \<Rightarrow> d)
                                 else d
                             | _ \<Rightarrow> d)))"
    by blast
qed

text \<open>
  The amended C4 on a plan of three entries whose second source is missing: two
  successes, one failure, both other files copied.  The third destination contains the
  text \<open>Append\<close> and exists already, so the third entry is appended to it.
\<close>

theorem copy_files_one_missing_source_witness:
  "let w = \<lparr>files = [[lit ''old''] \<mapsto> Dir,
                     [lit ''old'', lit ''a.py''] \<mapsto> File (encode (lit ''A'')),
                     [lit ''old'', lit ''c.py''] \<mapsto> File (encode (lit ''C'' @ [13, 10])),
                     [lit ''new''] \<mapsto> Dir,
                     [lit ''new'', lit ''Append.py''] \<mapsto> File (encode (lit ''Z''))],
            stdout = []\<rparr>
   in \<exists>w'. copy_files [lit ''old''] [lit ''new'']
           [(lit ''a.py'', lit ''x/a.py'', True), (lit ''b.py'', lit ''x/b.py'', True),
            (lit ''c.py'', lit ''Append.py'', False)] (0, 0, w) =
         Inr (2, 1, w') \<and>
         files w' [lit ''new'', lit ''x'', lit ''a.py''] = Some (File (encode (lit ''A''))) \<and>
         files w' [lit ''new'', lit ''Append.py''] =
           Some (File (encode (lit ''Z'') @ encode
                   ([10, 10] @
                    lit ''# ============================================================'' @ [10] @
                    lit ''# Appended from c.py'' @ [10] @
                    lit ''# ============================================================'' @ [10, 10] @
                    lit ''C'' @ [10]))) \<and>
         copy_file [lit ''old'', lit ''b.py''] [lit ''new'', lit ''x'', lit ''b.py''] False w =
         Inr (False, w\<lparr>stdout := [lit ''  WARNING: Source file not found: /old/b.py'']\<rparr>)"
proof -
  define fs0 :: fs where "fs0 = [[lit ''old''] \<mapsto> Dir,
                     [lit ''old'', lit ''a.py''] \<mapsto> File (encode (lit ''A'')),
                     [lit ''old'', lit ''c.py''] \<mapsto> File (encode (lit ''C'' @ [13, 10])),
                     [lit ''new''] \<mapsto> Dir,
                     [lit ''new'', lit ''Append.py''] \<mapsto> File (encode (lit ''Z''))]"
  let ?plan = "[(lit ''a.py'', lit ''x/a.py'', True), (lit ''b.py'', lit ''x/b.py'', True),
            (lit ''c.py'', lit ''Append.py'', False)]"
  let ?w = "\<lparr>files = fs0, stdout = []\<rparr>"
  have paths [simp]:
    "entry_src [lit ''old''] (lit ''a.py'', lit ''x/a.py'', True) = [lit ''old'', lit ''a.py'']"
    "entry_src [lit ''old''] (lit ''b.py'', lit ''x/b.py'', True) = [lit ''old'', lit ''b.py'']"
    "entry_src [lit ''old''] (lit ''c.py'', lit ''Append.py'', False) = [lit ''old'', lit ''c.py'']"
    "entry_dst [lit ''new''] (lit ''a.py'', lit ''x/a.py'', True) = [lit ''new'', lit ''x'', lit ''a.py'']"
    "entry_dst [lit ''new''] (lit ''b.py'', lit ''x/b.py'', True) = [lit ''new'', lit ''x'', lit ''b.py'']"
    "entry_dst [lit ''new''] (lit ''c.py'', lit ''Append.py'', False) = [lit ''new'', lit ''Append.py'']"
    by (simp_all add: entry_src_def entry_dst_def joinpath_def split_path_def startswith_def lit_def)
  have app [simp]:
    "\<not> entry_append (lit ''a.py'', lit ''x/a.py'', True)"
    "\<not> entry_append (lit ''b.py'', lit ''x/b.py'', True)"
    "entry_append (lit ''c.py'', lit ''Append.py'', False)"
    by (simp_all add: entry_append_def startswith_def lit_def)
  have lk [simp]:
    "fs0 [lit ''old'', lit ''a.py''] = Some (File (encode (lit ''A'')))"
    "fs0 [lit ''old'', lit ''b.py''] = None"
    "fs0 [lit ''old'', lit ''c.py''] = Some (File (encode (lit ''C'' @ [13, 10])))"
    "fs0 [lit ''new'', lit ''x'', lit ''a.py''] = None"
    "fs0 [lit ''new'', lit ''x'', lit ''b.py''] = None"
    "fs0 [lit ''new'', lit ''Append.py''] = Some (File (encode (lit ''Z'')))"
    "fs0 [lit ''new'', lit ''x''] = None"
    "fs0 [lit ''new''] = Some Dir"
    by (simp_all add: fs0_def lit_def)
  have h1: "\<forall>e\<in>set ?plan. \<not> exists (files ?w) (entry_src [lit ''old''] e) \<or>
                   is_file (files ?w) (entry_src [lit ''old''] e) \<and>
                   (entry_append e \<longrightarrow> (\<exists>c. read_text (files ?w) (entry_src [lit ''old''] e) = Inr c))"
    by (simp add: exists_def is_file_def read_text_File)
  have h2: "length (filter (\<lambda>e. \<not> exists (files ?w) (entry_src [lit ''old''] e)) ?plan) = 1"
    by (simp add: exists_def)
  have h3: "\<forall>e\<in>set ?plan. \<forall>e'\<in>set ?plan.
                \<not> prefix (entry_src [lit ''old''] e) (entry_dst [lit ''new''] e')"
    by simp
  have h4: "\<forall>e\<in>set ?plan. \<forall>e'\<in>set ?plan.
                 \<not> strict_prefix (entry_dst [lit ''new''] e) (entry_dst [lit ''new''] e')"
    by (simp add: strict_prefix_def)
  have h5: "\<forall>e\<in>set ?plan. \<not> is_dir (files ?w) (entry_dst [lit ''new''] e)"
    by (simp add: is_dir_def)
  have h6: "\<forall>e\<in>set ?plan. \<forall>q\<in>set (prefixes (entry_dst [lit ''new''] e)).
                q \<noteq> entry_dst [lit ''new''] e \<longrightarrow> \<not> is_file (files ?w) q"
    by (simp add: is_file_def lookup_def)
  note t = copy_files_one_missing_source [OF h1 h2 h3 h4 h5 h6]
  from t obtain w' where
    run: "copy_files [lit ''old''] [lit ''new''] ?plan (0, 0, ?w) = Inr (length ?plan - 1, 1, w')" and
    content: "\<forall>e\<in>set ?plan. \<forall>d.
               files ?w (entry_src [lit ''old''] e) = Some (File d) \<and>
               length (filter (\<lambda>e'. entry_dst [lit ''new''] e' = entry_dst [lit ''new''] e) ?plan) = 1 \<longrightarrow>
               files w' (entry_dst [lit ''new''] e) =
                 Some (File (case files ?w (entry_dst [lit ''new''] e) of
                               Some (File old) \<Rightarrow>
                                 if entry_append e
                                 then (case decode d of
                                         Inr c \<Rightarrow> old @ encode (separator (entry_src [lit ''old''] e) @
                                                                 universal_newlines c)
                                       | Inl x \<Rightarrow> d)
                                 else d
                             | _ \<Rightarrow> d))"
    by blast
  have un: "separator [lit ''old'', lit ''c.py''] @ universal_newlines (lit ''C'' @ [13, 10]) =
      [10, 10] @
      lit ''# ============================================================'' @ [10] @
      lit ''# Appended from c.py'' @ [10] @
      lit ''# ============================================================'' @ [10, 10] @
      lit ''C'' @ [10]"
    by (simp add: separator_def rule60_def nl_def name_def replicate_60 lit_def)
  from content have "files w' [lit ''new'', lit ''x'', lit ''a.py''] = Some (File (encode (lit ''A'')))"
    and "files w' [lit ''new'', lit ''Append.py''] =
           Some (File (encode (lit ''Z'') @ encode
             (separator [lit ''old'', lit ''c.py''] @ universal_newlines (lit ''C'' @ [13, 10]))))"
    by simp_all
  then have "files w' [lit ''new'', lit ''x'', lit ''a.py''] = Some (File (encode (lit ''A'')))"
    and "files w' [lit ''new'', lit ''Append.py''] =
           Some (File (encode (lit ''Z'') @ encode
                   ([10, 10] @
                    lit ''# ============================================================'' @ [10] @
                    lit ''# Appended from c.py'' @ [10] @
                    lit ''# ============================================================'' @ [10, 10] @
                    lit ''C'' @ [10])))"
    unfolding un by - (assumption+)
  moreover from t have "copy_file [lit ''old'', lit ''b.py''] [lit ''new'', lit ''x'', lit ''b.py''] False ?w =
      Inr (False, print (lit ''  WARNING: Source file not found: '' @ str_path [lit ''old'', lit ''b.py'']) ?w)"
    by (simp add: exists_def)
  moreover have "print (lit ''  WARNING: Source file not found: '' @ str_path [lit ''old'', lit ''b.py'']) ?w =
      ?w\<lparr>stdout := [lit ''  WARNING: Source file not found: /old/b.py'']\<rparr>"
    by (simp add: print_def str_path_def lit_def)
  ultimately show ?thesis using run unfolding fs0_def Let_def by simp
qed

section \<open>Properties of the validation run\<close>

lemma truncate_extend [simp]: "validator.truncate (validator.extend v x) = v"
  by (simp add: validator.defs)

lemma more_extend [simp]: "validator.more (validator.extend v x) = x"
  by (simp add: validator.defs)

lemma truncate_errors_update [simp]:
  "validator.truncate (v\<lparr>errors := x\<rparr>) = (validator.truncate v)\<lparr>errors := x\<rparr>"
  by (simp add: validator.defs)

lemma errors_extend [simp]: "errors (validator.extend v x) = errors v"
  by (simp add: validator.defs)

lemma more_errors_update [simp]: "validator.more (v\<lparr>errors := x\<rparr>) = validator.more v"
  by simp

text \<open>The instrumented run computes what the plain run computes.\<close>

lemma run_checks_logged:
  "validator.truncate (fst (run_checks env (map logged cs) v)) =
     fst (run_checks env cs (validator.truncate v)) \<and>
   snd (run_checks env (map logged cs) v) = snd (run_checks env cs (validator.truncate v))"
proof (induction cs arbitrary: v)
  case Nil
  then show ?case by simp
next
  case (Cons c cs)
  obtain n check_func where c: "c = (n, check_func)" by (cases c)
  obtain v' e where r: "check_func (validator.truncate v) = (v', e)"
    by (cases "check_func (validator.truncate v)")
  show ?case
  proof (cases e)
    case None
    with r c Cons.IH [of "validator.extend v' (validator.more v @ [n])"] show ?thesis
      by (simp add: logged_def)
  next
    case (Some x)
    with r c
      Cons.IH [of "(validator.extend v' (validator.more v @ [n]))
                     \<lparr>errors := errors v' @ [n @ lit '': '' @ exn_str env x]\<rparr>"]
    show ?thesis
      by (simp add: logged_def)
  qed
qed

text \<open>The checks that ran are an initial segment of the list, each logged once.\<close>

lemma run_checks_log_prefix:
  "\<exists>ys. prefix ys (map fst cs) \<and>
        validator.more (fst (run_checks env (map logged cs) v)) = validator.more v @ ys"
proof (induction cs arbitrary: v)
  case Nil
  then show ?case by simp
next
  case (Cons c cs)
  obtain n check_func where c: "c = (n, check_func)" by (cases c)
  obtain v' e where r: "check_func (validator.truncate v) = (v', e)"
    by (cases "check_func (validator.truncate v)")
  show ?case
  proof (cases e)
    case None
    from Cons.IH [of "validator.extend v' (validator.more v @ [n])"] obtain ys where
      "prefix ys (map fst cs)" and
      "validator.more (fst (run_checks env (map logged cs)
          (validator.extend v' (validator.more v @ [n])))) = (validator.more v @ [n]) @ ys"
      by auto
    with r c None have "prefix (n # ys) (map fst (c # cs)) \<and>
        validator.more (fst (run_checks env (map logged (c # cs)) v)) = validator.more v @ n # ys"
      by (simp add: logged_def)
    then show ?thesis by blast
  next
    case (Some x)
    show ?thesis
    proof (cases "is_exception x")
      case True
      from Cons.IH [of "(validator.extend v' (validator.more v @ [n]))
                     \<lparr>errors := errors v' @ [n @ lit '': '' @ exn_str env x]\<rparr>"] obtain ys where
        "prefix ys (map fst cs)" and
        "validator.more (fst (run_checks env (map logged cs)
            ((validator.extend v' (validator.more v @ [n]))
                     \<lparr>errors := errors v' @ [n @ lit '': '' @ exn_str env x]\<rparr>))) =
         (validator.more v @ [n]) @ ys"
        by auto
      with r c Some True have "prefix (n # ys) (map fst (c # cs)) \<and>
          validator.more (fst (run_checks env (map logged (c # cs)) v)) = validator.more v @ n # ys"
        by (simp add: logged_def)
      then show ?thesis by blast
    next
      case False
      with r c Some have "prefix [n] (map fst (c # cs)) \<and>
          validator.more (fst (run_checks env (map logged (c # cs)) v)) = validator.more v @ [n]"
        by (simp add: logged_def)
      then show ?thesis by blast
    qed
  qed
qed

text \<open>When no check raises anything but an \<open>Exception\<close>, the loop runs them all.\<close>

lemma run_checks_returns:
  "\<forall>c\<in>set cs. \<forall>v e. snd (snd c v) = Some e \<longrightarrow> is_exception e \<Longrightarrow>
   snd (run_checks env cs v) = None"
proof (induction cs arbitrary: v)
  case Nil
  then show ?case by simp
next
  case (Cons c cs)
  obtain n check_func where c: "c = (n, check_func)" by (cases c)
  obtain v' e where r: "check_func v = (v', e)" by (cases "check_func v")
  from Cons.prems c have h: "\<And>x. snd (check_func v) = Some x \<Longrightarrow> is_exception x"
    by auto
  from Cons.prems have rest: "\<forall>c\<in>set cs. \<forall>v e. snd (snd c v) = Some e \<longrightarrow> is_exception e"
    by simp
  show ?case
  proof (cases e)
    case None
    with r c Cons.IH [OF rest] show ?thesis by simp
  next
    case (Some x)
    with h r have "is_exception x" by simp
    with Some r c Cons.IH [OF rest] show ?thesis by simp
  qed
qed

lemma run_checks_log_all:
  "\<forall>c\<in>set cs. \<forall>v e. snd (snd c v) = Some e \<longrightarrow> is_exception e \<Longrightarrow>
   validator.more (fst (run_checks env (map logged cs) v)) = validator.more v @ map fst cs"
proof (induction cs arbitrary: v)
  case Nil
  then show ?case by simp
next
  case (Cons c cs)
  obtain n check_func where c: "c = (n, check_func)" by (cases c)
  obtain v' e where r: "check_func (validator.truncate v) = (v', e)"
    by (cases "check_func (validator.truncate v)")
  from Cons.prems c have h: "\<And>x. snd (check_func (validator.truncate v)) = Some x \<Longrightarrow> is_exception x"
    by auto
  from Cons.prems have rest: "\<forall>c\<in>set cs. \<forall>v e. snd (snd c v) = Some e \<longrightarrow> is_exception e"
    by simp
  show ?case
  proof (cases e)
    case None
    with r c Cons.IH [OF rest, of "validator.extend v' (validator.more v @ [n])"] show ?thesis
      by (simp add: logged_def)
  next
    case (Some x)
    with h r have "is_exception x" by simp
    with Some r c
      Cons.IH [OF rest, of "(validator.extend v' (validator.more v @ [n]))
                     \<lparr>errors := errors v' @ [n @ lit '': '' @ exn_str env x]\<rparr>"]
    show ?thesis
      by (simp add: logged_def)
  qed
qed

text \<open>What leaves the loop is no \<open>Exception\<close>.\<close>

lemma run_checks_uncaught:
  "snd (run_checks env cs v) = Some e \<Longrightarrow> \<not> is_exception e"
proof (induction cs arbitrary: v)
  case Nil
  then show ?case by simp
next
  case (Cons c cs)
  obtain n check_func where c: "c = (n, check_func)" by (cases c)
  obtain v' x where r: "check_func v = (v', x)" by (cases "check_func v")
  show ?case
  proof (cases x)
    case None
    with r c Cons.prems Cons.IH show ?thesis by simp
  next
    case (Some y)
    with r c Cons.prems Cons.IH show ?thesis
      by (cases "is_exception y") auto
  qed
qed

subsection \<open>What the five checks can raise\<close>

lemma decode_raises: "decode d = Inl e \<Longrightarrow> is_exception e"
  by (induction d arbitrary: e rule: decode.induct) (auto split: sum.splits)

lemma read_text_raises: "read_text fs p = Inl e \<Longrightarrow> is_exception e"
  by (auto simp: read_text_def read_bytes_def absent_exn_def
      split: option.splits node.splits sum.splits if_splits dest: decode_raises)

lemma check_imports_loop_returns:
  "\<forall>m e. find_spec env m = Inl e \<longrightarrow> is_exception e \<Longrightarrow>
   snd (check_imports_loop env ms v) = None"
proof (induction ms arbitrary: v)
  case Nil
  then show ?case by simp
next
  case (Cons m ms)
  obtain mn description where m: "m = (mn, description)" by (cases m)
  show ?case
  proof (cases "find_spec env mn")
    case (Inl e)
    with Cons.prems have "is_exception e" by blast
    with Inl m Cons.IH [OF Cons.prems] show ?thesis by simp
  next
    case (Inr found)
    with m Cons.IH [OF Cons.prems] show ?thesis by simp
  qed
qed

lemma py_in_raises: "py_in s config = Inl e \<Longrightarrow> is_exception e"
  by (cases config) auto

lemma check_sections_loop_raises:
  "snd (check_sections_loop config ss v) = Some e \<Longrightarrow> is_exception e"
proof (induction ss arbitrary: v)
  case Nil
  then show ?case by simp
next
  case (Cons s ss)
  show ?case
  proof (cases "py_in s config")
    case (Inl x)
    with Cons.prems py_in_raises [OF Inl] show ?thesis by simp
  next
    case (Inr present)
    with Cons.prems Cons.IH show ?thesis by (cases present) auto
  qed
qed

lemma config_handler_returns: "is_exception e \<Longrightarrow> snd (config_handler env e v) = None"
  by (cases e) (simp_all add: config_handler_def)

lemma check_configuration_raises:
  assumes "\<forall>t e. safe_load env t = Inl e \<longrightarrow> is_exception e"
    and "snd (check_configuration env fs v) = Some e"
  shows "is_exception e"
proof -
  let ?f = "joinpath (joinpath (project_root v) (lit ''configs'')) (lit ''default_config.yaml'')"
  show ?thesis
  proof (cases "exists fs ?f \<and> yaml_installed env")
    case False
    with assms(2) show ?thesis
      by (auto simp: check_configuration_def Let_def split: if_splits)
  next
    case True
    show ?thesis
    proof (cases "read_text fs ?f")
      case (Inl x)
      with True assms(2) config_handler_returns [OF read_text_raises [OF Inl], of env v]
      show ?thesis by (simp add: check_configuration_def Let_def)
    next
      case (Inr t)
      show ?thesis
      proof (cases "safe_load env t")
        case (Inl x)
        with assms(1) have "is_exception x" by blast
        from config_handler_returns [OF this, of env v] True Inr Inl assms(2)
        show ?thesis by (simp add: check_configuration_def Let_def)
      next
        case r: (Inr config)
        obtain v' x where l: "check_sections_loop config required_sections v = (v', x)"
          by (cases "check_sections_loop config required_sections v")
        show ?thesis
        proof (cases x)
          case None
          with True Inr r l assms(2) show ?thesis
            by (simp add: check_configuration_def Let_def)
        next
          case (Some y)
          with l have "is_exception y"
            using check_sections_loop_raises [of config required_sections v y] by simp
          from config_handler_returns [OF this, of env v'] True Inr r l Some assms(2)
          show ?thesis by (simp add: check_configuration_def Let_def)
        qed
      qed
    qed
  qed
qed

lemma check_documentation_loop_raises:
  "snd (check_documentation_loop fs ds v) = Some e \<Longrightarrow> is_exception e"
proof (induction ds arbitrary: v)
  case Nil
  then show ?case by simp
next
  case (Cons d ds)
  obtain file_name description where d: "d = (file_name, description)" by (cases d)
  show ?case
  proof (cases "exists fs (joinpath (project_root v) file_name)")
    case False
    with d Cons.prems Cons.IH show ?thesis by (simp add: Let_def)
  next
    case True
    show ?thesis
    proof (cases "read_text fs (joinpath (project_root v) file_name)")
      case (Inl x)
      with True d Cons.prems read_text_raises [OF Inl] show ?thesis by (simp add: Let_def)
    next
      case (Inr content)
      with True d Cons.prems Cons.IH show ?thesis
        by (cases "100 < length (strip content)") (simp_all add: Let_def)
    qed
  qed
qed

lemma checks_raise:
  assumes "\<forall>m e. find_spec env m = Inl e \<longrightarrow> is_exception e"
    and "\<forall>t e. safe_load env t = Inl e \<longrightarrow> is_exception e"
  shows "\<forall>c\<in>set (checks env fs). \<forall>v e. snd (snd c v) = Some e \<longrightarrow> is_exception e"
  by (auto simp: checks_def check_directory_structure_def check_required_files_def
      check_imports_def check_documentation_def check_imports_loop_returns [OF assms(1)]
      dest: check_configuration_raises [OF assms(2)] check_documentation_loop_raises)

subsection \<open>Every check runs\<close>

lemma lit_append: "lit a @ lit b = lit (a @ b)"
  by (simp add: lit_def)

lemmas validator_eval =
  validate_all_def checks_def ProjectValidator_def Let_def
  check_directory_structure_def required_dirs_def
  check_required_files_def required_files_def
  check_imports_def import_tests_def
  check_configuration_def required_sections_def config_handler_def
  check_documentation_def doc_files_def
  exists_def is_dir_def is_file_def read_text_File lit_append

lemmas path_eval = lookup_def joinpath_def split_path_def startswith_def lit_def

text \<open>
  Claim C2, amended.  The list of checks of \<open>validate_all\<close> names the five checks in the
  order directory structure, required files, imports, configuration, documentation.  When
  the module lookup and the YAML parser raise nothing but instances of \<open>Exception\<close>, each
  of the five checks runs exactly once in that order on any project (the log of the
  instrumented run is that list of names) and \<open>validate_all\<close> returns; the instrumented
  run always computes the same validator as \<open>validate_all\<close>.  The same holds for the loop
  on any list of checks that raise nothing but instances of \<open>Exception\<close>; on any list at
  all, the checks that run are an initial segment of the list, each run once.  A check that
  raises an \<open>Exception\<close> adds exactly one entry to the error bucket, made of its name and
  the text of the exception, and the loop goes on with the remaining checks; a check that
  raises any other exception (\<open>SystemExit\<close>, \<open>KeyboardInterrupt\<close>) ends the loop, and the
  remaining checks do not run.
\<close>

theorem validate_all_runs_every_check:
  "map fst (checks env fs :: (str \<times> unit check) list) =
     [lit ''Directory Structure'', lit ''Required Files'', lit ''Python Imports'',
      lit ''Configuration'', lit ''Documentation''] \<and>
   ((\<forall>m e. find_spec env m = Inl e \<longrightarrow> is_exception e) \<and>
    (\<forall>t e. safe_load env t = Inl e \<longrightarrow> is_exception e) \<longrightarrow>
      validator.more (fst (run_checks env (map logged (checks env fs))
                             (validator.extend self []))) =
        [lit ''Directory Structure'', lit ''Required Files'', lit ''Python Imports'',
         lit ''Configuration'', lit ''Documentation''] \<and>
      fst (validate_all env fs self) = Inr (errors (snd (validate_all env fs self)) = [])) \<and>
   validator.truncate (fst (run_checks env (map logged (checks env fs))
                              (validator.extend self []))) =
     snd (validate_all env fs self) \<and>
   ((\<forall>c\<in>set cs. \<forall>v e. snd (snd c v) = Some e \<longrightarrow> is_exception e) \<longrightarrow>
      validator.more (fst (run_checks env (map logged cs) (validator.extend self []))) =
        map fst cs \<and>
      snd (run_checks env cs self) = None) \<and>
   prefix (validator.more (fst (run_checks env (map logged cs) (validator.extend self []))))
     (map fst cs) \<and>
   validator.truncate (fst (run_checks env (map logged cs) (validator.extend self []))) =
     fst (run_checks env cs self) \<and>
   (check_func self0 = (self', Some e) \<and> is_exception e \<longrightarrow>
      run_checks env ((check_name, check_func) # rest) self0 =
        run_checks env rest
          (self'\<lparr>errors := errors self' @ [check_name @ lit '': '' @ exn_str env e]\<rparr>)) \<and>
   (check_func self0 = (self', Some e) \<and> \<not> is_exception e \<longrightarrow>
      run_checks env ((check_name, check_func) # rest) self0 = (self', Some e))"
proof -
  have names: "map fst (checks env fs :: (str \<times> unit check) list) =
     [lit ''Directory Structure'', lit ''Required Files'', lit ''Python Imports'',
      lit ''Configuration'', lit ''Documentation'']"
    by (simp add: checks_def)
  have tr: "\<And>cs. validator.truncate (fst (run_checks env (map logged cs) (validator.extend self []))) =
       fst (run_checks env cs self)"
    using run_checks_logged [of env _ "validator.extend self []"] by simp
  have va: "snd (validate_all env fs self) = fst (run_checks env (checks env fs) self)"
    by (simp add: validate_all_def split: prod.splits option.splits)
  have five: "validator.more (fst (run_checks env (map logged (checks env fs))
                             (validator.extend self []))) =
        [lit ''Directory Structure'', lit ''Required Files'', lit ''Python Imports'',
         lit ''Configuration'', lit ''Documentation''] \<and>
      fst (validate_all env fs self) = Inr (errors (snd (validate_all env fs self)) = [])"
    if h: "(\<forall>m e. find_spec env m = Inl e \<longrightarrow> is_exception e) \<and>
           (\<forall>t e. safe_load env t = Inl e \<longrightarrow> is_exception e)"
  proof -
    from h have r: "\<forall>c\<in>set (checks env fs :: (str \<times> unit check) list).
                      \<forall>v e. snd (snd c v) = Some e \<longrightarrow> is_exception e"
      using checks_raise by blast
    from run_checks_log_all [OF r, of env "validator.extend self []"] names
    have "validator.more (fst (run_checks env (map logged (checks env fs))
                             (validator.extend self []))) =
        [lit ''Directory Structure'', lit ''Required Files'', lit ''Python Imports'',
         lit ''Configuration'', lit ''Documentation'']"
      by simp
    moreover from run_checks_returns [OF r, of env self]
    have "fst (validate_all env fs self) = Inr (errors (snd (validate_all env fs self)) = [])"
      by (cases "run_checks env (checks env fs) self") (auto simp: validate_all_def)
    ultimately show ?thesis ..
  qed
  have gen: "validator.more (fst (run_checks env (map logged cs) (validator.extend self []))) =
        map fst cs \<and> snd (run_checks env cs self) = None"
    if h: "\<forall>c\<in>set cs. \<forall>v e. snd (snd c v) = Some e \<longrightarrow> is_exception e"
    using run_checks_log_all [OF h, of env "validator.extend self []"]
      run_checks_returns [OF h, of env self] by simp
  have pre: "prefix (validator.more (fst (run_checks env (map logged cs)
                (validator.extend self [])))) (map fst cs)"
    using run_checks_log_prefix [of cs env "validator.extend self []"] by auto
  have step1: "run_checks env ((check_name, check_func) # rest) self0 =
        run_checks env rest
          (self'\<lparr>errors := errors self' @ [check_name @ lit '': '' @ exn_str env e]\<rparr>)"
    if "check_func self0 = (self', Some e) \<and> is_exception e"
    using that by simp
  have step2: "run_checks env ((check_name, check_func) # rest) self0 = (self', Some e)"
    if "check_func self0 = (self', Some e) \<and> \<not> is_exception e"
    using that by simp
  show ?thesis
    using names five tr [of "checks env fs"] va gen pre tr [of cs] step1 step2
    by (intro conjI impI) simp_all
qed

end
